theory Spec2Isabelle
  imports Main "HOL-Library.Word" "HOL-Library.AList"
begin

unbundle bit_operations_syntax

section \<open>Secret store: data model (types.ts)\<close>

text \<open>
  The three secret levels, the four actions of the permission check and the roles of the
  host runtime that the service names (\<open>Role.NONE\<close>, \<open>Role.ADMIN\<close>,
  \<open>Role.OWNER\<close>).
\<close>

datatype level = Global | World | User

datatype action = Read | Write | Delete | Share

datatype role = NONE | ADMIN | OWNER

datatype error = Error string

type_synonym byte = "8 word"

text \<open>
  \<open>EncryptedSecret\<close>. The base64 text of the ciphertext is kept as its bytes, the
  initialization vector (16 random bytes) and the GCM tag (16 bytes) as 128-bit words.
  \<open>authTag\<close> is optional in the interface.
\<close>

record encrypted_secret =
  e_value :: "byte list"
  e_iv :: "128 word"
  e_authTag :: "128 word option"
  e_algorithm :: string
  e_keyId :: string

record secret_permission =
  entityId :: string
  permissions :: "string list"
  grantedBy :: string
  grantedAt :: nat
  expiresAt :: "nat option"

text \<open>
  \<open>SecretConfig\<close> (which extends \<open>EnvVarConfig\<close>). The code handles these objects
  as \<open>Partial<SecretConfig>\<close> and spreads possibly undefined ones, so every field is
  optional here. The \<open>value\<close> field is typed \<open>any\<close> in \<open>set\<close>: a string, an
  \<open>EncryptedSecret\<close> object, (through \<open>getWorldSecret\<close>) a whole config object, or
  (through a lookup \<open>obj[key]\<close> whose key names it) a member that plain objects inherit
  from \<open>Object.prototype\<close>, given by its name.
\<close>

datatype sval = Plain string | Enc encrypted_secret | CfgV secret_config | MemberV string
and secret_config = SecretConfig
  (c_value: "sval option")
  (c_type: "string option")
  (c_required: "bool option")
  (c_description: "string option")
  (c_canGenerate: "bool option")
  (c_validationMethod: "string option")
  (c_status: "string option")
  (c_lastError: "string option")
  (c_attempts: "nat option")
  (c_createdAt: "nat option")
  (c_validatedAt: "nat option")
  (c_plugin: "string option")
  (c_level: "level option")
  (c_ownerId: "string option")
  (c_worldId: "string option")
  (c_encrypted: "bool option")
  (c_permissions: "secret_permission list option")
  (c_sharedWith: "string list option")

record secret_context =
  level :: level
  worldId :: "string option"
  userId :: "string option"
  agentId :: string
  requesterId :: "string option"

record secret_access_log =
  secretKey :: string
  accessedBy :: string
  log_action :: action
  timestamp :: nat
  log_context :: secret_context
  success :: bool
  log_error :: "string option"

record validation_result =
  isValid :: bool
  v_error :: "string option"

section \<open>Host runtime and collaborators\<close>

text \<open>
  A world of the host runtime. \<open>metadata.roles\<close> and \<open>metadata.secrets\<close> are
  read with optional chaining: each is an object or undefined (as it is when \<open>metadata\<close>
  itself is undefined). The entries of \<open>metadata.secrets\<close> are config objects, as
  \<open>SecretMetadata\<close> types them and as \<open>setWorldSecret\<close> writes them.
\<close>

record world =
  w_roles :: "(string \<rightharpoonup> role) option"
  w_secrets :: "(string \<rightharpoonup> secret_config) option"

text \<open>
  A component of the host runtime; a user secret is a component of type \<open>secret\<close> whose
  data is \<open>{key, value, metadata, updatedAt}\<close> (\<open>d_encrypted\<close> is the flag of the old
  structure that \<open>getUserSecret\<close> still reads).
\<close>

record secret_data =
  d_key :: "string option"
  d_value :: "sval option"
  d_metadata :: "secret_config option"
  d_encrypted :: "bool option"
  d_updatedAt :: "nat option"

record component =
  comp_id :: string
  comp_type :: string
  comp_entityId :: string
  comp_data :: "secret_data option"

text \<open>
  What the service calls but this repository does not define: \<open>validateEnvVar\<close> of the
  validation module, \<open>getEnvVar\<close> and \<open>updateEnvVar\<close> of the parent
  \<open>EnvManagerService\<close> (over its own store \<open>'e\<close>), and AES-256-GCM of the platform's
  crypto library, given by its two primitives: the counter-mode key stream of a key and an
  initialization vector, and the tag computed over the ciphertext.
\<close>

record 'e deps =
  validateEnvVar :: "string \<Rightarrow> sval \<Rightarrow> string \<Rightarrow> string option \<Rightarrow> validation_result"
  getEnvVar :: "'e \<Rightarrow> string \<Rightarrow> string option"
  updateEnvVar :: "string \<Rightarrow> string \<Rightarrow> secret_config \<Rightarrow> 'e \<Rightarrow> error + 'e"
  keystream :: "256 word \<Rightarrow> 128 word \<Rightarrow> nat \<Rightarrow> byte"
  gmac :: "256 word \<Rightarrow> 128 word \<Rightarrow> byte list \<Rightarrow> 128 word"

text \<open>
  The state of \<open>EnhancedSecretManager\<close> together with the part of the runtime it reads and
  writes: the worlds by id and the table of components. \<open>secretCache\<close> is keyed by
  \<open>'global'\<close> and by \<open>'world:' + id\<close>; the two kinds of key never collide. Every read
  of the global entry gives the same result for a missing entry as for \<open>{}\<close>, so it is one
  object; \<open>getWorldSecret\<close> tells a world without an entry from one with an empty
  object, so the world entries are a partial map from world ids to objects. \<open>memberProps\<close>
  holds the properties that \<open>grantAccess\<close> and \<open>revokeAccess\<close> have put on a member
  of \<open>Object.prototype\<close> that they took for a config (\<open>permissions\<close> and
  \<open>sharedWith\<close>), by the member's name. \<open>now\<close> is what \<open>Date.now()\<close> returns.
\<close>

record 'e state =
  rt_agentId :: string
  encryptionKey :: "256 word"
  globalCache :: "string \<rightharpoonup> secret_config"
  worldCache :: "string \<rightharpoonup> (string \<rightharpoonup> secret_config)"
  memberProps :: "string \<Rightarrow> secret_config"
  accessLogs :: "secret_access_log list"
  worlds :: "string \<rightharpoonup> world"
  components :: "component list"
  env :: 'e
  now :: nat

section \<open>JavaScript truthiness\<close>

definition truthy :: "string option \<Rightarrow> bool" where
  "truthy x = (case x of None \<Rightarrow> False | Some s \<Rightarrow> s \<noteq> [])"

text \<open>\<open>a || d\<close> for an optional string \<open>a\<close> and a string \<open>d\<close>.\<close>

definition or_else :: "string option \<Rightarrow> string \<Rightarrow> string" where
  "or_else x d = (case x of None \<Rightarrow> d | Some s \<Rightarrow> if s \<noteq> [] then s else d)"

fun truthy_val :: "sval option \<Rightarrow> bool" where
  "truthy_val None = False"
| "truthy_val (Some (Plain s)) = (s \<noteq> [])"
| "truthy_val (Some (Enc e)) = True"
| "truthy_val (Some (CfgV c)) = True"
| "truthy_val (Some (MemberV m)) = True"

text \<open>\<open>v || null\<close> for a stored value.\<close>

definition or_null :: "sval option \<Rightarrow> sval option" where
  "or_null v = (if truthy_val v then v else None)"

fun level_name :: "level \<Rightarrow> string" where
  "level_name Global = ''global''"
| "level_name World = ''world''"
| "level_name User = ''user''"

section \<open>JavaScript objects: property lookup\<close>

text \<open>
  The objects that the code indexes with a key it was given (\<open>obj[key]\<close>) are plain
  objects: besides their own properties they answer to the names of the members of
  \<open>Object.prototype\<close>. An object is the map of its own properties, and a lookup yields the
  own property, or else the inherited member of that name, or else \<open>undefined\<close>. The
  inherited members are functions, except \<open>__proto__\<close>, which reads as the prototype
  object; all of them are truthy and none has a property \<open>value\<close> or \<open>encrypted\<close>.
  An assignment \<open>obj[key] = v\<close> makes an own property, and \<open>Object.entries\<close> and
  \<open>Object.keys\<close> see own properties only. Two effects of the name \<open>__proto__\<close> are
  left out: an assignment under that name replaces the prototype instead of making an own
  property, and a property assigned to the prototype object shows on every object.
\<close>

definition object_members :: "string list" where
  "object_members =
     [''constructor'', ''toString'', ''toLocaleString'', ''valueOf'', ''hasOwnProperty'',
      ''isPrototypeOf'', ''propertyIsEnumerable'', ''__proto__'', ''__defineGetter__'',
      ''__defineSetter__'', ''__lookupGetter__'', ''__lookupSetter__'']"

datatype 'a property = Own 'a | Member string | Undefined

definition get_prop :: "(string \<rightharpoonup> 'a) \<Rightarrow> string \<Rightarrow> 'a property" where
  "get_prop obj key =
     (case obj key of
        Some v \<Rightarrow> Own v
      | None \<Rightarrow> if key \<in> set object_members then Member key else Undefined)"

text \<open>\<open>obj?.[key]\<close> for an object that may be undefined.\<close>

definition get_prop_opt :: "(string \<rightharpoonup> 'a) option \<Rightarrow> string \<Rightarrow> 'a property" where
  "get_prop_opt obj key = (case obj of None \<Rightarrow> Undefined | Some m \<Rightarrow> get_prop m key)"

text \<open>
  The \<open>length\<close> of an inherited member: the number of parameters of the function, and
  undefined for the prototype object.
\<close>

definition member_length :: "string \<Rightarrow> int option" where
  "member_length m =
     (if m = ''__proto__'' then None
      else if m \<in> set [''__defineGetter__'', ''__defineSetter__''] then Some 2
      else if m \<in> set [''constructor'', ''hasOwnProperty'', ''isPrototypeOf'',
                         ''propertyIsEnumerable'', ''__lookupGetter__'', ''__lookupSetter__'']
      then Some 1
      else Some 0)"

section \<open>Encryption (encrypt, decrypt)\<close>

definition byte_of :: "char \<Rightarrow> byte" where
  "byte_of c = of_char c"

definition char_of_byte :: "byte \<Rightarrow> char" where
  "char_of_byte w = char_of (unat w)"

text \<open>Counter mode: byte \<open>n\<close> of the text is combined with byte \<open>n\<close> of the key stream.\<close>

fun gcm_xor :: "(nat \<Rightarrow> byte) \<Rightarrow> nat \<Rightarrow> byte list \<Rightarrow> byte list" where
  "gcm_xor ks n [] = []"
| "gcm_xor ks n (b # bs) = (b XOR ks n) # gcm_xor ks (Suc n) bs"

text \<open>
  \<open>encrypt(value)\<close> with the fresh initialization vector \<open>iv\<close> of \<open>randomBytes(16)\<close>.
  \<open>cipher.update(value, 'utf8', ...)\<close> throws a TypeError for a value that is not a string;
  its message ends with what was received: an object, or a function with its name (the
  inherited \<open>constructor\<close> is the function \<open>Object\<close>).
\<close>

definition received :: "sval \<Rightarrow> string" where
  "received v =
     (case v of
        MemberV m \<Rightarrow>
          if m = ''__proto__'' then ''an instance of Object''
          else ''function '' @ (if m = ''constructor'' then ''Object'' else m)
      | _ \<Rightarrow> ''an instance of Object'')"

definition data_message :: "sval \<Rightarrow> string" where
  "data_message v =
     ''The '' @ [CHR 0x22] @ ''data'' @ [CHR 0x22]
     @ '' argument must be of type string or an instance of Buffer, TypedArray, or DataView.''
     @ '' Received '' @ received v"

definition encrypt :: "'e deps \<Rightarrow> 256 word \<Rightarrow> 128 word \<Rightarrow> sval \<Rightarrow> error + encrypted_secret" where
  "encrypt d k iv v =
     (case v of
        Plain s \<Rightarrow>
          (let encrypted = gcm_xor (keystream d k iv) 0 (map byte_of s);
               authTag = gmac d k iv encrypted
           in Inr \<lparr>e_value = encrypted, e_iv = iv, e_authTag = Some authTag,
                   e_algorithm = ''aes-256-gcm'', e_keyId = ''default''\<rparr>)
      | _ \<Rightarrow> Inl (Error (data_message v)))"

text \<open>
  \<open>decrypt(encryptedData)\<close>: a string is returned as it is; otherwise the tag is set when
  the record has one, and \<open>decipher.final\<close> throws unless the tag was set and is the tag of
  the ciphertext. An object without an \<open>iv\<close> (a config object, an inherited member)
  makes \<open>Buffer.from\<close> throw a TypeError, and \<open>undefined\<close> makes the read of its
  \<open>iv\<close> throw one.
\<close>

definition no_iv_message :: string where
  "no_iv_message =
     ''The first argument must be of type string or an instance of Buffer, ArrayBuffer, ''
     @ ''or Array or an Array-like Object. Received undefined''"

definition cannot_read :: "string \<Rightarrow> string" where
  "cannot_read name =
     ''Cannot read properties of undefined (reading '' @ [CHR 0x27] @ name @ [CHR 0x27] @ '')''"

definition decrypt :: "'e deps \<Rightarrow> 256 word \<Rightarrow> sval option \<Rightarrow> error + string" where
  "decrypt d k v =
     (case v of
        Some (Plain s) \<Rightarrow> Inr s
      | Some (Enc e) \<Rightarrow>
          (case e_authTag e of
             None \<Rightarrow> Inl (Error ''Unsupported state or unable to authenticate data'')
           | Some t \<Rightarrow>
               if t = gmac d k (e_iv e) (e_value e)
               then Inr (map char_of_byte (gcm_xor (keystream d k (e_iv e)) 0 (e_value e)))
               else Inl (Error ''Unsupported state or unable to authenticate data''))
      | Some (CfgV c) \<Rightarrow> Inl (Error no_iv_message)
      | Some (MemberV m) \<Rightarrow> Inl (Error no_iv_message)
      | None \<Rightarrow> Inl (Error (cannot_read ''iv'')))"

section \<open>Audit log (logAccess, getAccessLogs)\<close>

text \<open>The entry that \<open>logAccess\<close> builds, and \<open>slice(-n)\<close>: the last \<open>n\<close> elements.\<close>

definition log_entry ::
  "string \<Rightarrow> action \<Rightarrow> secret_context \<Rightarrow> bool \<Rightarrow> string option \<Rightarrow> 'e state \<Rightarrow> secret_access_log" where
  "log_entry key act ctx ok err s =
     \<lparr>secretKey = key,
      accessedBy = or_else (requesterId ctx) (or_else (userId ctx) (rt_agentId s)),
      log_action = act, timestamp = now s, log_context = ctx,
      success = ok, log_error = err\<rparr>"

definition keep_last :: "nat \<Rightarrow> 'a list \<Rightarrow> 'a list" where
  "keep_last n xs = drop (length xs - n) xs"

definition logAccess ::
  "string \<Rightarrow> action \<Rightarrow> secret_context \<Rightarrow> bool \<Rightarrow> string option \<Rightarrow> 'e state \<Rightarrow> 'e state" where
  "logAccess key act ctx ok err s =
     (let logs = accessLogs s @ [log_entry key act ctx ok err s]
      in s\<lparr>accessLogs := (if length logs > 1000 then keep_last 1000 logs else logs)\<rparr>)"

definition getAccessLogs ::
  "string \<Rightarrow> secret_context option \<Rightarrow> 'e state \<Rightarrow> secret_access_log list" where
  "getAccessLogs key context s =
     filter (\<lambda>log.
        if secretKey log \<noteq> key then False
        else (case context of
                None \<Rightarrow> True
              | Some c \<Rightarrow>
                  if level (log_context log) \<noteq> level c then False
                  else if truthy (worldId c) \<and> worldId (log_context log) \<noteq> worldId c then False
                  else if truthy (userId c) \<and> userId (log_context log) \<noteq> userId c then False
                  else True))
       (accessLogs s)"

section \<open>Permission check (checkPermission)\<close>

text \<open>
  \<open>roles?.[requesterId || ''] || Role.NONE\<close>: the role recorded for the requester, an
  inherited member when the id names one, and \<open>Role.NONE\<close> otherwise. A read of a world
  secret is allowed without looking at the role.
\<close>

definition checkPermission :: "string \<Rightarrow> action \<Rightarrow> secret_context \<Rightarrow> 'e state \<Rightarrow> bool" where
  "checkPermission key act ctx s =
     (if level ctx = Global then
        (if act = Read then True else requesterId ctx = Some (rt_agentId s))
      else if level ctx = World \<and> truthy (worldId ctx) then
        (case worlds s (or_else (worldId ctx) []) of
           None \<Rightarrow> False
         | Some world \<Rightarrow>
             (let requesterRole =
                    (case get_prop_opt (w_roles world) (or_else (requesterId ctx) []) of
                       Undefined \<Rightarrow> Own NONE | found \<Rightarrow> found)
              in if act = Read then True
                 else requesterRole = Own OWNER \<or> requesterRole = Own ADMIN))
      else if level ctx = User \<and> truthy (userId ctx) then requesterId ctx = userId ctx
      else False)"

section \<open>Reading a secret (get)\<close>

definition getGlobalSecret :: "'e deps \<Rightarrow> string \<Rightarrow> 'e state \<Rightarrow> sval option" where
  "getGlobalSecret d key s =
     (let envValue = getEnvVar d (env s) key
      in if truthy envValue then map_option Plain envValue
         else (case get_prop (globalCache s) key of
                 Own config \<Rightarrow> or_null (c_value config)
               | Member m \<Rightarrow> None
               | Undefined \<Rightarrow> None))"

text \<open>
  The cache is tried first: an own record is decrypted or returned, and an inherited
  member, which is truthy and has no \<open>value\<close>, gives \<open>null\<close>. Without a cache
  object or a property of that name the world's metadata is read, where
  \<open>secretData.value || secretData\<close> hands back the whole record when its value is falsy,
  and the inherited member itself when the key names one.
\<close>

definition getWorldSecret :: "'e deps \<Rightarrow> string \<Rightarrow> string \<Rightarrow> 'e state \<Rightarrow> error + sval option" where
  "getWorldSecret d key wid s =
     (case get_prop_opt (worldCache s wid) key of
        Own config \<Rightarrow>
          if c_encrypted config = Some True \<and> truthy_val (c_value config)
          then map_sum id (\<lambda>p. Some (Plain p)) (decrypt d (encryptionKey s) (c_value config))
          else Inr (or_null (c_value config))
      | Member m \<Rightarrow> Inr None
      | Undefined \<Rightarrow>
          (case worlds s wid of
             None \<Rightarrow> Inr None
           | Some world \<Rightarrow>
               (case get_prop_opt (w_secrets world) key of
                  Undefined \<Rightarrow> Inr None
                | Member m \<Rightarrow> Inr (Some (MemberV m))
                | Own secretData \<Rightarrow>
                    if c_encrypted secretData = Some True
                    then map_sum id (\<lambda>p. Some (Plain p))
                           (decrypt d (encryptionKey s) (c_value secretData))
                    else Inr (Some (if truthy_val (c_value secretData)
                                    then the (c_value secretData)
                                    else CfgV secretData)))))"

text \<open>\<open>runtime.getComponents(entityId)\<close>: the components of that entity.\<close>

definition getComponents :: "string \<Rightarrow> 'e state \<Rightarrow> component list" where
  "getComponents uid s = filter (\<lambda>c. comp_entityId c = uid) (components s)"

text \<open>\<open>components.find((c) => c.data?.key === key && c.type === 'secret')\<close>\<close>

definition is_secret_for :: "string \<Rightarrow> component \<Rightarrow> bool" where
  "is_secret_for key c =
     ((case comp_data c of None \<Rightarrow> False | Some dt \<Rightarrow> d_key dt = Some key)
      \<and> comp_type c = ''secret'')"

definition is_encrypted_object :: "sval option \<Rightarrow> bool" where
  "is_encrypted_object v =
     (case v of
        Some (Enc e) \<Rightarrow> e_algorithm e \<noteq> []
      | _ \<Rightarrow> False)"

definition getUserSecret :: "'e deps \<Rightarrow> string \<Rightarrow> string \<Rightarrow> 'e state \<Rightarrow> error + sval option" where
  "getUserSecret d key uid s =
     (case find (is_secret_for key) (getComponents uid s) of
        None \<Rightarrow> Inr None
      | Some secretComponent \<Rightarrow>
          (case comp_data secretComponent of
             None \<Rightarrow> Inr None
           | Some secretData \<Rightarrow>
               if (case d_metadata secretData of None \<Rightarrow> False | Some m \<Rightarrow> c_encrypted m = Some True)
                  \<and> is_encrypted_object (d_value secretData)
               then map_sum id (\<lambda>p. Some (Plain p))
                      (decrypt d (encryptionKey s) (d_value secretData))
               else if d_encrypted secretData = Some True \<and> truthy_val (d_value secretData)
               then map_sum id (\<lambda>p. Some (Plain p))
                      (decrypt d (encryptionKey s) (d_value secretData))
               else Inr (or_null (d_value secretData))))"

fun message :: "error \<Rightarrow> string" where
  "message (Error m) = m"

text \<open>The \<open>switch\<close> of \<open>get\<close>, inside its \<open>try\<close>.\<close>

definition get_switch :: "'e deps \<Rightarrow> string \<Rightarrow> secret_context \<Rightarrow> 'e state \<Rightarrow> error + sval option" where
  "get_switch d key ctx s =
     (case level ctx of
        Global \<Rightarrow> Inr (getGlobalSecret d key s)
      | World \<Rightarrow>
          if \<not> truthy (worldId ctx) then Inl (Error ''World ID required for world-level secrets'')
          else getWorldSecret d key (or_else (worldId ctx) []) s
      | User \<Rightarrow>
          if \<not> truthy (userId ctx) then Inl (Error ''User ID required for user-level secrets'')
          else getUserSecret d key (or_else (userId ctx) []) s)"

text \<open>
  \<open>get(key, context)\<close>. The result is \<open>Inl\<close> when the call throws and \<open>Inr None\<close> when
  it returns \<open>null\<close>. The whole body is in one \<open>try\<close> whose \<open>catch\<close> logs the failure
  and returns \<open>null\<close>.
\<close>

definition get :: "'e deps \<Rightarrow> string \<Rightarrow> secret_context \<Rightarrow> 'e state \<Rightarrow> (error + sval option) \<times> 'e state" where
  "get d key ctx s =
     (let s1 = logAccess key Read ctx True None s
      in if \<not> checkPermission key Read ctx s1
         then (Inr None, logAccess key Read ctx False (Some ''Permission denied'') s1)
         else (case get_switch d key ctx s1 of
                 Inr v \<Rightarrow> (Inr v, s1)
               | Inl e \<Rightarrow> (Inr None, logAccess key Read ctx False (Some (message e)) s1)))"

section \<open>Writing a secret (set)\<close>

definition strip_env_prefix :: "string \<Rightarrow> string" where
  "strip_env_prefix key = (if take 4 key = ''ENV_'' then drop 4 key else key)"

definition setGlobalSecret ::
  "'e deps \<Rightarrow> string \<Rightarrow> sval \<Rightarrow> secret_config \<Rightarrow> 'e state \<Rightarrow> error + bool \<times> 'e state" where
  "setGlobalSecret d key v config s =
     (let envKey = strip_env_prefix key
      in case updateEnvVar d (or_else (c_plugin config) ''global'') envKey config (env s) of
           Inl e \<Rightarrow> Inl e
         | Inr env' \<Rightarrow> Inr (True, s\<lparr>env := env', globalCache := (globalCache s)(key \<mapsto> config)\<rparr>))"

definition with_value :: "secret_config \<Rightarrow> sval option \<Rightarrow> secret_config" where
  "with_value c v =
     SecretConfig v (c_type c) (c_required c) (c_description c) (c_canGenerate c)
       (c_validationMethod c) (c_status c) (c_lastError c) (c_attempts c) (c_createdAt c)
       (c_validatedAt c) (c_plugin c) (c_level c) (c_ownerId c) (c_worldId c) (c_encrypted c)
       (c_permissions c) (c_sharedWith c)"

text \<open>
  \<open>config.encrypted ? await this.encrypt(value) : value\<close>. In \<open>setWorldSecret\<close> the
  world is the object that \<open>runtime.getWorld\<close> hands out, a copy of the stored one: what
  is initialised on it before \<open>encrypt\<close> throws is never written back.
\<close>

definition final_value ::
  "'e deps \<Rightarrow> 256 word \<Rightarrow> 128 word \<Rightarrow> secret_config \<Rightarrow> sval \<Rightarrow> error + sval" where
  "final_value d k iv config v =
     (if c_encrypted config = Some True then map_sum id Enc (encrypt d k iv v) else Inr v)"

definition setWorldSecret ::
  "'e deps \<Rightarrow> 128 word \<Rightarrow> string \<Rightarrow> sval \<Rightarrow> string \<Rightarrow> secret_config \<Rightarrow> 'e state
     \<Rightarrow> error + bool \<times> 'e state" where
  "setWorldSecret d iv key v wid config s =
     (case worlds s wid of
        None \<Rightarrow> Inl (Error (''World '' @ wid @ '' not found''))
      | Some world \<Rightarrow>
          (case final_value d (encryptionKey s) iv config v of
             Inl e \<Rightarrow> Inl e
           | Inr finalValue \<Rightarrow>
               (let stored = with_value config (Some finalValue);
                    secrets0 = (case w_secrets world of None \<Rightarrow> Map.empty | Some m \<Rightarrow> m);
                    world' = world\<lparr>w_secrets := Some (secrets0(key \<mapsto> stored))\<rparr>;
                    worldSecrets = (case worldCache s wid of None \<Rightarrow> Map.empty | Some c \<Rightarrow> c)
                in Inr (True,
                        s\<lparr>worlds := (worlds s)(wid \<mapsto> world'),
                          worldCache := (worldCache s)(wid \<mapsto> worldSecrets(key \<mapsto> stored))\<rparr>))))"

text \<open>
  \<open>runtime.updateComponent\<close> and \<open>runtime.createComponent\<close> of the host runtime, on its
  table of components: an update rewrites the rows with the component's id, a creation adds
  a row.
\<close>

definition updateComponent :: "component \<Rightarrow> component list \<Rightarrow> component list" where
  "updateComponent c xs = map (\<lambda>x. if comp_id x = comp_id c then c else x) xs"

definition createComponent :: "component \<Rightarrow> component list \<Rightarrow> component list" where
  "createComponent c xs = xs @ [c]"

definition setUserSecret ::
  "'e deps \<Rightarrow> 128 word \<Rightarrow> string \<Rightarrow> sval \<Rightarrow> string \<Rightarrow> secret_config \<Rightarrow> 'e state
     \<Rightarrow> error + bool \<times> 'e state" where
  "setUserSecret d iv key v uid config s =
     (let existingComponents = getComponents uid s;
          existingComponent = find (is_secret_for key) existingComponents
      in case final_value d (encryptionKey s) iv config v of
           Inl e \<Rightarrow> Inl e
         | Inr finalValue \<Rightarrow>
             (let componentData = \<lparr>d_key = Some key, d_value = Some finalValue,
                                   d_metadata = Some config, d_encrypted = None,
                                   d_updatedAt = Some (now s)\<rparr>
              in case existingComponent of
                   Some existing \<Rightarrow>
                     Inr (True,
                          s\<lparr>components :=
                               updateComponent (existing\<lparr>comp_data := Some componentData\<rparr>)
                                 (components s)\<rparr>)
                 | None \<Rightarrow>
                     (let newComponent = \<lparr>comp_id = uid @ ''-'' @ key, comp_type = ''secret'',
                                          comp_entityId = uid, comp_data = Some componentData\<rparr>
                      in Inr (True,
                              s\<lparr>components := createComponent newComponent (components s)\<rparr>))))"

text \<open>
  The body of the \<open>try\<close> of \<open>set\<close> after the permission check: the optional validation,
  the full config, and the \<open>switch\<close> on the level. Every \<open>throw\<close> comes before the first
  write, so a thrown error leaves the state as it was.
\<close>

definition fullConfig :: "string \<Rightarrow> sval \<Rightarrow> secret_context \<Rightarrow> secret_config option \<Rightarrow> nat \<Rightarrow> secret_config" where
  "fullConfig key v ctx config t =
     SecretConfig (Some v)
       (Some (or_else (Option.bind config c_type) ''secret''))
       (Some (case Option.bind config c_required of None \<Rightarrow> False | Some r \<Rightarrow> r))
       (Some (or_else (Option.bind config c_description) (''Secret: '' @ key)))
       (Some False)
       None
       (Some ''valid'')
       None
       (Some 0)
       (Some t)
       (Some t)
       (Some (or_else (Option.bind config c_plugin) (level_name (level ctx))))
       (Some (level ctx))
       (userId ctx)
       (worldId ctx)
       (Some (case Option.bind config c_encrypted of None \<Rightarrow> True | Some e \<Rightarrow> e))
       (Option.bind config c_permissions)
       None"

definition set_body ::
  "'e deps \<Rightarrow> 128 word \<Rightarrow> string \<Rightarrow> sval \<Rightarrow> secret_context \<Rightarrow> secret_config option \<Rightarrow> 'e state
     \<Rightarrow> error + bool \<times> 'e state" where
  "set_body d iv key v ctx config s =
     (let validation =
            (if truthy (Option.bind config c_validationMethod) \<or> truthy (Option.bind config c_type)
             then validateEnvVar d key v (or_else (Option.bind config c_type) ''secret'')
                    (Option.bind config c_validationMethod)
             else \<lparr>isValid = True, v_error = None\<rparr>)
      in if \<not> isValid validation
         then Inl (Error (''Validation failed: '' @ (case v_error validation of None \<Rightarrow> ''undefined'' | Some m \<Rightarrow> m)))
         else
           (let cfg = fullConfig key v ctx config (now s)
            in case level ctx of
                 Global \<Rightarrow> setGlobalSecret d key v cfg s
               | World \<Rightarrow>
                   if \<not> truthy (worldId ctx)
                   then Inl (Error ''World ID required for world-level secrets'')
                   else setWorldSecret d iv key v (or_else (worldId ctx) []) cfg s
               | User \<Rightarrow>
                   if \<not> truthy (userId ctx)
                   then Inl (Error ''User ID required for user-level secrets'')
                   else setUserSecret d iv key v (or_else (userId ctx) []) cfg s))"

text \<open>
  \<open>set(key, value, context, config?)\<close>; \<open>iv\<close> is the initialization vector that
  \<open>randomBytes(16)\<close> yields if the value is encrypted.
\<close>

definition set_secret ::
  "'e deps \<Rightarrow> 128 word \<Rightarrow> string \<Rightarrow> sval \<Rightarrow> secret_context \<Rightarrow> secret_config option \<Rightarrow> 'e state
     \<Rightarrow> (error + bool) \<times> 'e state" where
  "set_secret d iv key v ctx config s =
     (let s1 = logAccess key Write ctx True None s
      in if \<not> checkPermission key Write ctx s1
         then (Inr False, logAccess key Write ctx False (Some ''Permission denied'') s1)
         else (case set_body d iv key v ctx config s1 of
                 Inr (r, s2) \<Rightarrow> (Inr r, s2)
               | Inl e \<Rightarrow> (Inr False, logAccess key Write ctx False (Some (message e)) s1)))"

section \<open>Listing, sharing and stopping (list, grantAccess, revokeAccess, stop)\<close>

text \<open>\<open>{ ...config, value: undefined }\<close>\<close>

definition strip_value :: "secret_config \<Rightarrow> secret_config" where
  "strip_value c = with_value c None"

text \<open>\<open>{ ...data.metadata, value: undefined }\<close>, where the metadata may be undefined.\<close>

definition empty_config :: secret_config where
  "empty_config =
     SecretConfig None None None None None None None None None None None None None None None
       None None None"

definition strip_metadata :: "secret_config option \<Rightarrow> secret_config" where
  "strip_metadata m = (case m of None \<Rightarrow> empty_config | Some c \<Rightarrow> strip_value c)"

text \<open>
  The loop of \<open>list\<close> over the components of a user. Reading \<open>data.key\<close> of a secret
  component without data throws; an undefined key is the property name \<open>undefined\<close>.
\<close>

fun list_user ::
  "component list \<Rightarrow> (string \<rightharpoonup> secret_config) \<Rightarrow> error + (string \<rightharpoonup> secret_config)" where
  "list_user [] filteredSecrets = Inr filteredSecrets"
| "list_user (c # cs) filteredSecrets =
     (if comp_type c = ''secret'' then
        (case comp_data c of
           None \<Rightarrow> Inl (Error (cannot_read ''key''))
         | Some dt \<Rightarrow>
             list_user cs
               (filteredSecrets
                  ((case d_key dt of None \<Rightarrow> ''undefined'' | Some k \<Rightarrow> k)
                     \<mapsto> strip_metadata (d_metadata dt))))
      else list_user cs filteredSecrets)"

definition list_secrets :: "secret_context \<Rightarrow> 'e state \<Rightarrow> error + (string \<rightharpoonup> secret_config)" where
  "list_secrets ctx s =
     (case level ctx of
        Global \<Rightarrow> Inr (\<lambda>key. map_option strip_value (globalCache s key))
      | World \<Rightarrow>
          if \<not> truthy (worldId ctx) then Inl (Error ''World ID required'')
          else Inr (\<lambda>key. map_option strip_value
                                ((case worldCache s (or_else (worldId ctx) []) of
                                    None \<Rightarrow> Map.empty
                                  | Some worldSecrets \<Rightarrow> worldSecrets) key))
      | User \<Rightarrow>
          if \<not> truthy (userId ctx) then Inl (Error ''User ID required'')
          else list_user (getComponents (or_else (userId ctx) []) s) Map.empty)"

text \<open>
  \<open>metadata[key] || null\<close> on the listing, a plain object: the listed record, the
  inherited member when the key names one and no record is listed, or \<open>null\<close>
  (\<open>Undefined\<close> here).
\<close>

definition getSecretConfig :: "string \<Rightarrow> secret_context \<Rightarrow> 'e state \<Rightarrow> error + secret_config property" where
  "getSecretConfig key ctx s = map_sum id (\<lambda>metadata. get_prop metadata key) (list_secrets ctx s)"

definition updateSecretConfig ::
  "'e deps \<Rightarrow> 128 word \<Rightarrow> string \<Rightarrow> secret_context \<Rightarrow> secret_config \<Rightarrow> 'e state
     \<Rightarrow> (error + bool) \<times> 'e state" where
  "updateSecretConfig d iv key ctx config s =
     (case get d key ctx s of
        (Inl e, s1) \<Rightarrow> (Inl e, s1)
      | (Inr None, s1) \<Rightarrow> (Inr False, s1)
      | (Inr (Some currentValue), s1) \<Rightarrow> set_secret d iv key currentValue ctx (Some config) s1)"

definition with_permissions ::
  "secret_config \<Rightarrow> secret_permission list option \<Rightarrow> string list option \<Rightarrow> secret_config" where
  "with_permissions c ps sw =
     SecretConfig (c_value c) (c_type c) (c_required c) (c_description c) (c_canGenerate c)
       (c_validationMethod c) (c_status c) (c_lastError c) (c_attempts c) (c_createdAt c)
       (c_validatedAt c) (c_plugin c) (c_level c) (c_ownerId c) (c_worldId c) (c_encrypted c)
       ps sw"

text \<open>
  \<open>config.permissions.push(newPermission)\<close> and \<open>config.sharedWith.push(grantee)\<close>
  work on the arrays that the listed copy shares with the cached record (the copy is
  shallow), so a cached record that already has a permission list sees the new permission
  at once, and one that already has a \<open>sharedWith\<close> list without the grantee sees the
  grantee. Components come from the runtime's store and share nothing with it.
\<close>

definition push_shared :: "secret_permission \<Rightarrow> string \<Rightarrow> secret_config \<Rightarrow> secret_config" where
  "push_shared p grantee c =
     with_permissions c
       (map_option (\<lambda>ps. ps @ [p]) (c_permissions c))
       (map_option (\<lambda>sw. if grantee \<in> set sw then sw else sw @ [grantee]) (c_sharedWith c))"

definition push_cached ::
  "string \<Rightarrow> secret_context \<Rightarrow> secret_permission \<Rightarrow> string \<Rightarrow> 'e state \<Rightarrow> 'e state" where
  "push_cached key ctx p grantee s =
     (case level ctx of
        Global \<Rightarrow>
          s\<lparr>globalCache := (\<lambda>k. if k = key then map_option (push_shared p grantee) (globalCache s k)
                                  else globalCache s k)\<rparr>
      | World \<Rightarrow>
          (let wid = or_else (worldId ctx) []
           in case worldCache s wid of
                None \<Rightarrow> s
              | Some worldSecrets \<Rightarrow>
                  s\<lparr>worldCache := (worldCache s)
                      (wid \<mapsto> (\<lambda>k. if k = key then map_option (push_shared p grantee) (worldSecrets k)
                                     else worldSecrets k))\<rparr>)
      | User \<Rightarrow> s)"

text \<open>
  The config after the four statements of \<open>grantAccess\<close> that add the permission and
  the grantee, and after the two of \<open>revokeAccess\<close> that filter them out.
\<close>

definition granted :: "secret_permission \<Rightarrow> string \<Rightarrow> secret_config \<Rightarrow> secret_config" where
  "granted newPermission grantee config =
     (let ps = (case c_permissions config of None \<Rightarrow> [] | Some l \<Rightarrow> l) @ [newPermission];
          sw = (case c_sharedWith config of None \<Rightarrow> [] | Some l \<Rightarrow> l);
          sw' = (if grantee \<in> set sw then sw else sw @ [grantee])
      in with_permissions config (Some ps) (Some sw'))"

definition revoked :: "string \<Rightarrow> secret_config \<Rightarrow> secret_config" where
  "revoked grantee config =
     (let ps = filter (\<lambda>p. entityId p \<noteq> grantee)
                 (case c_permissions config of None \<Rightarrow> [] | Some l \<Rightarrow> l);
          sw = filter (\<lambda>i. i \<noteq> grantee)
                 (case c_sharedWith config of None \<Rightarrow> [] | Some l \<Rightarrow> l)
      in with_permissions config (Some ps) (Some sw))"

text \<open>
  \<open>grantAccess\<close> and \<open>revokeAccess\<close>. The config is the listed copy of the record;
  when the key names an inherited member and no record is listed, it is that member, a
  function object without any field of a config other than the \<open>permissions\<close> and
  \<open>sharedWith\<close> that these two methods have assigned to it before, and the assignments
  stay on it.
\<close>

definition grantAccess ::
  "'e deps \<Rightarrow> 128 word \<Rightarrow> string \<Rightarrow> secret_context \<Rightarrow> string \<Rightarrow> string list \<Rightarrow> 'e state
     \<Rightarrow> (error + bool) \<times> 'e state" where
  "grantAccess d iv key ctx grantee perms s =
     (if \<not> checkPermission key Share ctx s then (Inr False, s)
      else (let newPermission =
                  \<lparr>entityId = grantee, permissions = perms,
                   grantedBy = or_else (requesterId ctx) (or_else (userId ctx) (rt_agentId s)),
                   grantedAt = now s, expiresAt = None\<rparr>
            in case getSecretConfig key ctx s of
                 Inl e \<Rightarrow> (Inl e, s)
               | Inr Undefined \<Rightarrow> (Inr False, s)
               | Inr (Own config) \<Rightarrow>
                   updateSecretConfig d iv key ctx (granted newPermission grantee config)
                     (push_cached key ctx newPermission grantee s)
               | Inr (Member m) \<Rightarrow>
                   (let config = granted newPermission grantee (memberProps s m)
                    in updateSecretConfig d iv key ctx config
                         (s\<lparr>memberProps := (memberProps s)(m := config)\<rparr>))))"

definition revokeAccess ::
  "'e deps \<Rightarrow> 128 word \<Rightarrow> string \<Rightarrow> secret_context \<Rightarrow> string \<Rightarrow> 'e state
     \<Rightarrow> (error + bool) \<times> 'e state" where
  "revokeAccess d iv key ctx grantee s =
     (if \<not> checkPermission key Share ctx s then (Inr False, s)
      else (case getSecretConfig key ctx s of
              Inl e \<Rightarrow> (Inl e, s)
            | Inr Undefined \<Rightarrow> (Inr False, s)
            | Inr (Own config) \<Rightarrow> updateSecretConfig d iv key ctx (revoked grantee config) s
            | Inr (Member m) \<Rightarrow>
                (let config = revoked grantee (memberProps s m)
                 in updateSecretConfig d iv key ctx config
                      (s\<lparr>memberProps := (memberProps s)(m := config)\<rparr>))))"

definition stop :: "'e state \<Rightarrow> 'e state" where
  "stop s = s\<lparr>globalCache := Map.empty, worldCache := Map.empty, accessLogs := []\<rparr>"

section \<open>Form service: data model (types/form, as the service uses it)\<close>

text \<open>
  A validation rule of a form field: its type with the rule's \<open>value\<close> (a length, a
  regular expression given by its \<open>test\<close>) or its optional \<open>validator\<close>, and its
  message. The \<open>switch\<close> of the validation has no default, so any other type passes.
  A test or a validator is applied to whatever the handler has read for the field.
\<close>

datatype rule_type =
    RequiredRule
  | MinLength int
  | MaxLength int
  | Pattern "sval \<Rightarrow> bool"
  | Custom "(sval \<Rightarrow> bool) option"
  | OtherRule

record validation_rule =
  r_type :: rule_type
  r_message :: string

record form_field =
  f_name :: string
  f_label :: string
  f_type :: string
  f_required :: bool
  f_sensitive :: bool
  f_validation :: "validation_rule list option"

text \<open>\<open>Partial<FormField>\<close>: a preset or the caller's overrides of a field.\<close>

record field_overrides =
  o_name :: "string option"
  o_label :: "string option"
  o_type :: "string option"
  o_required :: "bool option"
  o_sensitive :: "bool option"
  o_validation :: "validation_rule list option"

record secret_request =
  sr_key :: string
  sr_config :: secret_config
  sr_field :: "field_overrides option"

record secret_form_request =
  secrets :: "secret_request list"
  r_title :: "string option"
  r_description :: "string option"
  r_mode :: "string option"
  expiresIn :: "nat option"
  r_maxSubmissions :: "int option"

record form_schema =
  sch_id :: string
  title :: string
  description :: string
  sch_fields :: "form_field list"
  submitLabel :: string
  mode :: string
  sch_expiresAt :: nat
  maxSubmissions :: "int option"
  successMessage :: string

text \<open>
  The body of a submission: a JSON object keyed by secret name, with string values, given
  by its own properties.
\<close>

type_synonym payload = "string \<rightharpoonup> string"

record form_submission =
  sub_formId :: string
  sub_sessionId :: string
  sub_data :: payload
  submittedAt :: nat
  ipAddress :: "string option"
  userAgent :: "string option"

datatype session_status = Active | Completed | Expired

text \<open>
  A form session. The callback is an asynchronous function of the caller: all that the
  handler sees of it is whether it resolves (\<open>None\<close>) or rejects with an error.
\<close>

record form_session =
  fs_id :: string
  formId :: string
  tunnelId :: string
  port :: nat
  url :: string
  schema :: form_schema
  request :: secret_form_request
  createdAt :: nat
  fs_expiresAt :: nat
  submissions :: "form_submission list"
  status :: session_status
  callback :: "(form_submission \<Rightarrow> error option) option"

text \<open>
  The state of \<open>SecretFormService\<close>. A session object lives on in the route handlers that
  close over it after \<open>closeSession\<close> has removed it from \<open>sessions\<close>, so the objects are
  kept in a heap (a reference is an index into it), each with the context its handlers
  close over, and \<open>sessions\<close> maps ids to references, in insertion order. \<open>servers\<close> holds the ports of the running form servers.
  \<open>closedTunnels\<close> records the calls of \<open>ngrokService.closeTunnel\<close> and \<open>setCalls\<close>
  those of \<open>secretsManager.set\<close> (key and value), in order; \<open>manager\<close> is the state of the
  secrets manager.
\<close>

record 'm form_service =
  sessions :: "(string \<times> nat) list"
  heap :: "(form_session \<times> secret_context) list"
  servers :: "nat list"
  nextPort :: nat
  closedTunnels :: "string list"
  setCalls :: "(string \<times> sval) list"
  manager :: 'm

text \<open>
  What \<open>createSecretForm\<close> gets from outside: the table \<open>FormFieldPresets\<close>, the two
  \<open>nanoid()\<close> results, the clock, and the outcome of \<open>ngrokService.createTunnel\<close>
  (an error, or the tunnel's id and url). The table is read as
  \<open>FormFieldPresets[type] || {}\<close> and the result is spread into the field, so a type
  without a preset contributes nothing, and neither does a type that names an inherited
  member (a function has no enumerable property of its own).
\<close>

record create_env =
  presets :: "string \<Rightarrow> field_overrides option"
  schemaId :: string
  sessionId :: string
  ce_now :: nat
  tunnel :: "error + string \<times> string"

datatype response =
    Html410
  | Json410
  | Json400 "(string \<times> string) list option"
  | Json500
  | Json200 string
  | HtmlForm form_schema
  | JsonStatus session_status nat "int option" nat
  | NoRoute

section \<open>Form service: creating a form (createSecretForm)\<close>

definition is_word_char :: "char \<Rightarrow> bool" where
  "is_word_char c =
     (let n = (of_char c :: nat)
      in (48 \<le> n \<and> n \<le> 57) \<or> (65 \<le> n \<and> n \<le> 90) \<or> (97 \<le> n \<and> n \<le> 122) \<or> n = 95)"

definition toUpperCase :: "char \<Rightarrow> char" where
  "toUpperCase c =
     (let n = (of_char c :: nat) in if 97 \<le> n \<and> n \<le> 122 then char_of (n - 32) else c)"

text \<open>\<open>.replace(/\b\w/g, (l) => l.toUpperCase())\<close>: the first character of every word.\<close>

fun capitalize_words :: "bool \<Rightarrow> string \<Rightarrow> string" where
  "capitalize_words inWord [] = []"
| "capitalize_words inWord (c # cs) =
     (if is_word_char c
      then (if inWord then c else toUpperCase c) # capitalize_words True cs
      else c # capitalize_words False cs)"

definition default_label :: "string \<Rightarrow> string" where
  "default_label key = capitalize_words False (map (\<lambda>c. if c = CHR ''_'' then CHR '' '' else c) key)"

definition apply_overrides :: "form_field \<Rightarrow> field_overrides \<Rightarrow> form_field" where
  "apply_overrides f ov =
     \<lparr>f_name = (case o_name ov of None \<Rightarrow> f_name f | Some x \<Rightarrow> x),
      f_label = (case o_label ov of None \<Rightarrow> f_label f | Some x \<Rightarrow> x),
      f_type = (case o_type ov of None \<Rightarrow> f_type f | Some x \<Rightarrow> x),
      f_required = (case o_required ov of None \<Rightarrow> f_required f | Some x \<Rightarrow> x),
      f_sensitive = (case o_sensitive ov of None \<Rightarrow> f_sensitive f | Some x \<Rightarrow> x),
      f_validation = (case o_validation ov of None \<Rightarrow> f_validation f | Some x \<Rightarrow> Some x)\<rparr>"

definition no_overrides :: field_overrides where
  "no_overrides =
     \<lparr>o_name = None, o_label = None, o_type = None, o_required = None, o_sensitive = None,
      o_validation = None\<rparr>"

definition createFormField ::
  "(string \<Rightarrow> field_overrides option) \<Rightarrow> string \<Rightarrow> secret_config \<Rightarrow> field_overrides option \<Rightarrow> form_field" where
  "createFormField table key config fieldOverrides =
     (let preset = (case table (or_else (c_type config) ''text'') of
                      None \<Rightarrow> no_overrides | Some p \<Rightarrow> p);
          fieldType = (if c_type config = Some ''url'' then ''url''
                       else if c_type config = Some ''config'' then ''json''
                       else ''password'');
          field = \<lparr>f_name = key,
                   f_label = (if truthy (c_description config) then or_else (c_description config) []
                              else default_label key),
                   f_type = fieldType,
                   f_required = (case c_required config of None \<Rightarrow> True | Some r \<Rightarrow> r),
                   f_sensitive = True,
                   f_validation = None\<rparr>
      in apply_overrides (apply_overrides field preset)
           (case fieldOverrides of None \<Rightarrow> no_overrides | Some ov \<Rightarrow> ov))"

definition generateFormSchema :: "create_env \<Rightarrow> secret_form_request \<Rightarrow> form_schema" where
  "generateFormSchema ce req =
     \<lparr>sch_id = schemaId ce,
      title = or_else (r_title req) ''Secure Information Request'',
      description = or_else (r_description req) ''Please provide the following information securely.'',
      sch_fields = map (\<lambda>secret. createFormField (presets ce) (sr_key secret) (sr_config secret)
                                (sr_field secret)) (secrets req),
      submitLabel = ''Submit Securely'',
      mode = or_else (r_mode req) ''requester'',
      sch_expiresAt = ce_now ce + (case expiresIn req of
                                     None \<Rightarrow> 30 * 60 * 1000
                                   | Some n \<Rightarrow> if n = 0 then 30 * 60 * 1000 else n),
      maxSubmissions = Some (case r_maxSubmissions req of
                               None \<Rightarrow> 1
                             | Some n \<Rightarrow> if n = 0 then 1 else n),
      successMessage = ''Thank you! Your information has been securely received.''\<rparr>"

text \<open>\<open>getAvailablePort\<close>: the first port from \<open>nextPort\<close> on that no server holds.\<close>

function free_port :: "nat list \<Rightarrow> nat \<Rightarrow> nat" where
  "free_port srv p = (if p \<in> set srv then free_port srv (Suc p) else p)"
  by pat_completeness auto
termination
proof (relation "measure (\<lambda>(srv, p). Suc (Max (set srv)) - p)")
  show "wf (measure (\<lambda>(srv, p). Suc (Max (set srv)) - p))"
    by simp
next
  fix srv :: "nat list" and p :: nat
  assume "p \<in> set srv"
  then have "p \<le> Max (set srv)"
    by simp
  then show "((srv, Suc p), (srv, p)) \<in> measure (\<lambda>(srv, p). Suc (Max (set srv)) - p)"
    by simp
qed

declare free_port.simps [simp del]

definition createSecretForm ::
  "create_env \<Rightarrow> secret_form_request \<Rightarrow> secret_context
     \<Rightarrow> (form_submission \<Rightarrow> error option) option
     \<Rightarrow> 'm form_service \<Rightarrow> (error + string \<times> string) \<times> 'm form_service" where
  "createSecretForm ce req context cb fsv =
     (let sch = generateFormSchema ce req;
          p = free_port (servers fsv) (nextPort fsv);
          fsv1 = fsv\<lparr>nextPort := p + 1\<rparr>
      in case tunnel ce of
           Inl e \<Rightarrow> (Inl e, fsv1)
         | Inr (tid, turl) \<Rightarrow>
             (let session = \<lparr>fs_id = sessionId ce, formId = sch_id sch, tunnelId = tid,
                              port = p, url = turl, schema = sch, request = req,
                              createdAt = ce_now ce, fs_expiresAt = sch_expiresAt sch,
                              submissions = [], status = Active, callback = cb\<rparr>
              in (Inr (turl @ ''/form/'' @ fs_id session, fs_id session),
                  fsv1\<lparr>sessions := AList.update (fs_id session) (length (heap fsv1)) (sessions fsv1),
                       heap := heap fsv1 @ [(session, context)],
                       servers := (if p \<in> set (servers fsv1) then servers fsv1
                                   else servers fsv1 @ [p])\<rparr>)))"

section \<open>Form service: validation and persistence of a submission\<close>

text \<open>
  \<open>data[name]\<close> on the body: the string under that name, the inherited member when the
  name is that of one and the body has no property of that name, or \<open>undefined\<close>.
\<close>

definition read_field :: "payload \<Rightarrow> string \<Rightarrow> sval option" where
  "read_field dt name =
     (case get_prop dt name of
        Own v \<Rightarrow> Some (Plain v)
      | Member m \<Rightarrow> Some (MemberV m)
      | Undefined \<Rightarrow> None)"

text \<open>\<open>value.length\<close>, undefined for a value that has none.\<close>

definition value_length :: "sval \<Rightarrow> int option" where
  "value_length v =
     (case v of
        Plain s \<Rightarrow> Some (int (length s))
      | MemberV m \<Rightarrow> member_length m
      | _ \<Rightarrow> None)"

text \<open>One rule on a value; a comparison with an undefined length is false.\<close>

definition rule_ok :: "validation_rule \<Rightarrow> sval \<Rightarrow> bool" where
  "rule_ok rule v =
     (case r_type rule of
        RequiredRule \<Rightarrow> truthy_val (Some v)
      | MinLength n \<Rightarrow> (case value_length v of None \<Rightarrow> False | Some l \<Rightarrow> l \<ge> n)
      | MaxLength n \<Rightarrow> (case value_length v of None \<Rightarrow> False | Some l \<Rightarrow> l \<le> n)
      | Pattern test \<Rightarrow> test v
      | Custom validator \<Rightarrow> (case validator of None \<Rightarrow> True | Some f \<Rightarrow> f v)
      | OtherRule \<Rightarrow> True)"

text \<open>The inner loop over the rules of a field: the message of the first rule that fails.\<close>

fun first_failure :: "validation_rule list \<Rightarrow> sval \<Rightarrow> string option" where
  "first_failure [] v = None"
| "first_failure (rule # rules) v =
     (if \<not> rule_ok rule v then Some (r_message rule) else first_failure rules v)"

text \<open>One round of the loop over the fields: the error recorded for the field, if any.\<close>

definition field_error :: "form_field \<Rightarrow> payload \<Rightarrow> string option" where
  "field_error field dt =
     (let v = read_field dt (f_name field)
      in if f_required field \<and> \<not> truthy_val v then Some (f_label field @ '' is required'')
         else (case f_validation field of
                 None \<Rightarrow> None
               | Some rules \<Rightarrow>
                   (case v of
                      None \<Rightarrow> None
                    | Some x \<Rightarrow> if truthy_val v then first_failure rules x else None)))"

fun validate_fields ::
  "form_field list \<Rightarrow> payload \<Rightarrow> (string \<times> string) list \<Rightarrow> (string \<times> string) list" where
  "validate_fields [] dt errors = errors"
| "validate_fields (field # rest) dt errors =
     validate_fields rest dt
       (case field_error field dt of
          None \<Rightarrow> errors
        | Some m \<Rightarrow> AList.update (f_name field) m errors)"

record validation =
  valid :: bool
  errors :: "(string \<times> string) list option"

definition validateSubmission :: "form_schema \<Rightarrow> payload \<Rightarrow> validation" where
  "validateSubmission sch dt =
     (let errs = validate_fields (sch_fields sch) dt []
      in \<lparr>valid = (length errs = 0), errors = (if length errs > 0 then Some errs else None)\<rparr>)"

text \<open>
  \<open>secretsManager.set\<close> as the form service sees it: a call on the manager's state that
  returns a boolean or throws.
\<close>

type_synonym 'm manager_set =
  "string \<Rightarrow> sval \<Rightarrow> secret_context \<Rightarrow> secret_config option \<Rightarrow> 'm \<Rightarrow> (error + bool) \<times> 'm"

text \<open>
  \<open>storeSubmittedSecrets\<close>: the loop over the secrets of the request. A secret for
  which \<open>submission.data[secret.key]\<close> is falsy is skipped; an error of \<open>set\<close> is
  logged and thrown again. The result is the thrown error, if any.
\<close>

fun storeSubmittedSecrets ::
  "'m manager_set \<Rightarrow> secret_request list \<Rightarrow> payload \<Rightarrow> secret_context \<Rightarrow> 'm form_service
     \<Rightarrow> error option \<times> 'm form_service" where
  "storeSubmittedSecrets mset [] dt context fsv = (None, fsv)"
| "storeSubmittedSecrets mset (secret # rest) dt context fsv =
     (case read_field dt (sr_key secret) of
        None \<Rightarrow> storeSubmittedSecrets mset rest dt context fsv
      | Some v \<Rightarrow>
          if \<not> truthy_val (Some v) then storeSubmittedSecrets mset rest dt context fsv
          else (case mset (sr_key secret) v context (Some (sr_config secret)) (manager fsv) of
                  (Inl e, m') \<Rightarrow>
                    (Some e, fsv\<lparr>manager := m',
                                 setCalls := setCalls fsv @ [(sr_key secret, v)]\<rparr>)
                | (Inr b, m') \<Rightarrow>
                    storeSubmittedSecrets mset rest dt context
                      (fsv\<lparr>manager := m',
                           setCalls := setCalls fsv @ [(sr_key secret, v)]\<rparr>)))"

section \<open>Form service: sessions (closeSession, cleanupExpiredSessions, getSession, stop)\<close>

definition deref :: "'m form_service \<Rightarrow> nat \<Rightarrow> (form_session \<times> secret_context) option" where
  "deref fsv r = (if r < length (heap fsv) then Some (heap fsv ! r) else None)"

definition getSession :: "string \<Rightarrow> 'm form_service \<Rightarrow> form_session option" where
  "getSession sid fsv =
     (case map_of (sessions fsv) sid of
        None \<Rightarrow> None
      | Some r \<Rightarrow> map_option fst (deref fsv r))"

text \<open>
  \<open>closeSession(sessionId)\<close>: nothing for an unknown id; otherwise the tunnel is closed,
  the server of the session's port is stopped and removed, and the session leaves the
  registry. The session object itself is not touched.
\<close>

definition closeSession :: "string \<Rightarrow> 'm form_service \<Rightarrow> 'm form_service" where
  "closeSession sid fsv =
     (case getSession sid fsv of
        None \<Rightarrow> fsv
      | Some session \<Rightarrow>
          fsv\<lparr>closedTunnels := closedTunnels fsv @ [tunnelId session],
              servers := removeAll (port session) (servers fsv),
              sessions := AList.delete sid (sessions fsv)\<rparr>)"

definition cleanupExpiredSessions :: "nat \<Rightarrow> 'm form_service \<Rightarrow> 'm form_service" where
  "cleanupExpiredSessions t fsv =
     (let expiredSessions =
            map fst (filter (\<lambda>(sid, r). case deref fsv r of
                                           None \<Rightarrow> False
                                         | Some (session, c) \<Rightarrow>
                                             t \<ge> fs_expiresAt session \<or> status session = Completed)
                       (sessions fsv))
      in fold closeSession expiredSessions fsv)"

definition stop_forms :: "'m form_service \<Rightarrow> 'm form_service" where
  "stop_forms fsv = fold closeSession (map fst (sessions fsv)) fsv"

section \<open>Form service: the routes of a session (setupFormRoutes)\<close>

text \<open>
  The three handlers that \<open>setupFormRoutes\<close> installs for the session object at reference
  \<open>r\<close>. A reference that was never allocated has no routes.
\<close>

definition form_page :: "nat \<Rightarrow> 'm form_service \<Rightarrow> response" where
  "form_page r fsv =
     (case deref fsv r of
        None \<Rightarrow> NoRoute
      | Some (session, context) \<Rightarrow>
          if status session \<noteq> Active then Html410 else HtmlForm (schema session))"

definition form_status :: "nat \<Rightarrow> 'm form_service \<Rightarrow> response" where
  "form_status r fsv =
     (case deref fsv r of
        None \<Rightarrow> NoRoute
      | Some (session, context) \<Rightarrow>
          JsonStatus (status session) (length (submissions session))
            (maxSubmissions (schema session)) (fs_expiresAt session))"

text \<open>The record that the submission handler builds from a request.\<close>

definition new_submission ::
  "form_session \<Rightarrow> payload \<Rightarrow> nat \<Rightarrow> string option \<Rightarrow> string option \<Rightarrow> form_submission" where
  "new_submission session body t ip ua =
     \<lparr>sub_formId = formId session, sub_sessionId = fs_id session, sub_data = body,
      submittedAt = t, ipAddress = ip, userAgent = ua\<rparr>"

text \<open>\<open>session.schema.maxSubmissions || 1\<close>\<close>

definition max_or_one :: "int option \<Rightarrow> int" where
  "max_or_one m = (case m of None \<Rightarrow> 1 | Some n \<Rightarrow> if n = 0 then 1 else n)"

text \<open>
  The submission handler; \<open>t\<close> is \<open>Date.now()\<close>, \<open>ip\<close> and \<open>ua\<close> are \<open>req.ip\<close> and
  the user agent. The handler does not wait for \<open>closeSession\<close>, whose steps are taken
  here at the call.
\<close>

definition submit ::
  "'m manager_set \<Rightarrow> nat \<Rightarrow> payload \<Rightarrow> nat \<Rightarrow> string option \<Rightarrow> string option \<Rightarrow> 'm form_service
     \<Rightarrow> response \<times> 'm form_service" where
  "submit mset r body t ip ua fsv =
     (case deref fsv r of
        None \<Rightarrow> (NoRoute, fsv)
      | Some (session, context) \<Rightarrow>
          if status session \<noteq> Active then (Json410, fsv)
          else
            (let validation = validateSubmission (schema session) body
             in if \<not> valid validation then (Json400 (errors validation), fsv)
                else
                  (let submission = new_submission session body t ip ua;
                       session1 = session\<lparr>submissions := submissions session @ [submission]\<rparr>;
                       fsv1 = fsv\<lparr>heap := (heap fsv)[r := (session1, context)]\<rparr>
                   in case storeSubmittedSecrets mset (secrets (request session1)) body context fsv1 of
                        (Some e, fsv2) \<Rightarrow> (Json500, fsv2)
                      | (None, fsv2) \<Rightarrow>
                          (let fsv3 =
                                 (if int (length (submissions session1))
                                       \<ge> max_or_one (maxSubmissions (schema session1))
                                  then closeSession (fs_id session1)
                                         (fsv2\<lparr>heap := (heap fsv2)
                                                  [r := (session1\<lparr>status := Completed\<rparr>, context)]\<rparr>)
                                  else fsv2)
                           in case callback session1 of
                                None \<Rightarrow> (Json200 (successMessage (schema session1)), fsv3)
                              | Some cb \<Rightarrow>
                                  (case cb submission of
                                     Some e \<Rightarrow> (Json500, fsv3)
                                   | None \<Rightarrow> (Json200 (successMessage (schema session1)), fsv3))))))"

section \<open>Notions used to state the properties of the secret store\<close>

text \<open>
  A key is absent for a context when the place that \<open>get\<close> reads at the context's level
  holds nothing of its own for it: no environment variable and no cached record (global),
  no cached record and none in the world's metadata (world), no secret component of the
  user (user).
\<close>

definition absent :: "'e deps \<Rightarrow> string \<Rightarrow> secret_context \<Rightarrow> 'e state \<Rightarrow> bool" where
  "absent d key ctx s =
     (case level ctx of
        Global \<Rightarrow> \<not> truthy (getEnvVar d (env s) key) \<and> globalCache s key = None
      | World \<Rightarrow>
          (case worldCache s (or_else (worldId ctx) []) of
             None \<Rightarrow> True
           | Some worldSecrets \<Rightarrow> worldSecrets key = None)
          \<and> (case worlds s (or_else (worldId ctx) []) of
                None \<Rightarrow> True
              | Some world \<Rightarrow>
                  (case w_secrets world of None \<Rightarrow> True | Some m \<Rightarrow> m key = None))
      | User \<Rightarrow> find (is_secret_for key) (getComponents (or_else (userId ctx) []) s) = None)"




section \<open>Concrete collaborators, states and requests\<close>

text \<open>
  Small instances on which the definitions are run: a validator that accepts everything, a
  parent service without environment variables, a constant key stream with a tag that
  counts the bytes of the ciphertext, one world with an owner, an administrator and a
  guest whose role is \<open>Role.NONE\<close>, and no stored secret.
\<close>

definition ex_deps :: "unit deps" where
  "ex_deps =
     \<lparr>validateEnvVar = (\<lambda>key v t m. \<lparr>isValid = True, v_error = None\<rparr>),
      getEnvVar = (\<lambda>e key. None),
      updateEnvVar = (\<lambda>plugin key config e. Inr e),
      keystream = (\<lambda>k iv n. 42),
      gmac = (\<lambda>k iv ct. of_nat (length ct))\<rparr>"

definition ex_world :: world where
  "ex_world =
     \<lparr>w_roles = Some [''owner-1'' \<mapsto> OWNER, ''admin-1'' \<mapsto> ADMIN, ''guest-1'' \<mapsto> NONE],
      w_secrets = Some Map.empty\<rparr>"

definition ex_state :: "unit state" where
  "ex_state =
     \<lparr>rt_agentId = ''agent-1'', encryptionKey = 0, globalCache = Map.empty,
      worldCache = Map.empty, memberProps = (\<lambda>m. empty_config), accessLogs = [],
      worlds = [''world-1'' \<mapsto> ex_world], components = [], env = (), now = 0\<rparr>"

definition ex_ctx :: "level \<Rightarrow> string \<Rightarrow> secret_context" where
  "ex_ctx l who =
     \<lparr>level = l, worldId = Some ''world-1'', userId = Some ''user-1'', agentId = ''agent-1'',
      requesterId = Some who\<rparr>"

text \<open>A log that is full: one old entry for the key \<open>OLD\<close> and 999 later ones.\<close>

definition ex_full :: "unit state" where
  "ex_full =
     ex_state\<lparr>accessLogs :=
       log_entry ''OLD'' Read (ex_ctx Global ''agent-1'') True None ex_state
         # replicate 999 (log_entry ''KEY'' Read (ex_ctx Global ''agent-1'') True None ex_state)\<rparr>"

text \<open>The partial config \<open>{ encrypted: b }\<close>.\<close>

definition ex_config :: "bool \<Rightarrow> secret_config" where
  "ex_config b =
     SecretConfig None None None None None None None None None None None None None None None
       (Some b) None None"


definition ex_stored :: "unit state" where
  "ex_stored =
     snd (set_secret ex_deps 0 ''API_KEY'' (Plain ''sk-1'') (ex_ctx World ''owner-1'') None ex_state)"




section \<open>Notions used to state the properties of the form service\<close>

text \<open>
  The secrets of a request for which the body of a submission has a non-empty string,
  each with that string, in the order of the request.
\<close>

definition to_store :: "secret_request list \<Rightarrow> payload \<Rightarrow> (secret_request \<times> string) list" where
  "to_store secs dt =
     map (\<lambda>secret. (secret, or_else (dt (sr_key secret)) []))
       (filter (\<lambda>secret. truthy (dt (sr_key secret))) secs)"

text \<open>The call of \<open>secretsManager.set\<close> for one such pair, and what the log of calls shows of it.\<close>

definition call_set ::
  "'m manager_set \<Rightarrow> secret_context \<Rightarrow> secret_request \<times> string \<Rightarrow> 'm \<Rightarrow> (error + bool) \<times> 'm" where
  "call_set mset context p m =
     mset (sr_key (fst p)) (Plain (snd p)) context (Some (sr_config (fst p))) m"

definition call_of :: "secret_request \<times> string \<Rightarrow> string \<times> sval" where
  "call_of p = (sr_key (fst p), Plain (snd p))"

text \<open>
  The state of the manager after the calls for a list of pairs, one after the other, and
  whether all of them return (rather than throw).
\<close>

fun run_sets ::
  "'m manager_set \<Rightarrow> secret_context \<Rightarrow> (secret_request \<times> string) list \<Rightarrow> 'm \<Rightarrow> 'm" where
  "run_sets mset context [] m = m"
| "run_sets mset context (p # ps) m = run_sets mset context ps (snd (call_set mset context p m))"

fun all_return ::
  "'m manager_set \<Rightarrow> secret_context \<Rightarrow> (secret_request \<times> string) list \<Rightarrow> 'm \<Rightarrow> bool" where
  "all_return mset context [] m = True"
| "all_return mset context (p # ps) m =
     (case call_set mset context p m of
        (Inl e, m') \<Rightarrow> False
      | (Inr b, m') \<Rightarrow> all_return mset context ps m')"

text \<open>
  The value that one round of the loop of \<open>storeSubmittedSecrets\<close> passes to
  \<open>set\<close>, if the round is not skipped.
\<close>

definition passed :: "payload \<Rightarrow> secret_request \<Rightarrow> sval option" where
  "passed dt secret =
     (case read_field dt (sr_key secret) of
        None \<Rightarrow> None
      | Some v \<Rightarrow> if truthy_val (Some v) then Some v else None)"

text \<open>
  The operations that change the state of the form service, and one step of each. The
  form page and the status route only read.
\<close>

datatype form_op =
    OpCreate create_env secret_form_request secret_context
      "(form_submission \<Rightarrow> error option) option"
  | OpSubmit nat payload nat "string option" "string option"
  | OpClose string
  | OpCleanup nat
  | OpStop

definition step :: "'m manager_set \<Rightarrow> form_op \<Rightarrow> 'm form_service \<Rightarrow> 'm form_service" where
  "step mset opn fsv =
     (case opn of
        OpCreate ce req context cb \<Rightarrow> snd (createSecretForm ce req context cb fsv)
      | OpSubmit r body t ip ua \<Rightarrow> snd (submit mset r body t ip ua fsv)
      | OpClose sid \<Rightarrow> closeSession sid fsv
      | OpCleanup t \<Rightarrow> cleanupExpiredSessions t fsv
      | OpStop \<Rightarrow> stop_forms fsv)"

section \<open>A concrete form\<close>

text \<open>
  A form for a required API key and an optional webhook URL, for the user of \<open>ex_ctx\<close>,
  created on a service without sessions; the secrets manager is the one modelled above,
  or one whose \<open>set\<close> throws.
\<close>

definition ex_secret_config :: "string \<Rightarrow> bool \<Rightarrow> secret_config" where
  "ex_secret_config ty req =
     SecretConfig None (Some ty) (Some req) None None None None None None None None None None
       None None None None None"

definition ex_request :: "int \<Rightarrow> secret_form_request" where
  "ex_request n =
     \<lparr>secrets = [\<lparr>sr_key = ''API_KEY'', sr_config = ex_secret_config ''api_key'' True,
                  sr_field = None\<rparr>,
                 \<lparr>sr_key = ''WEBHOOK_URL'', sr_config = ex_secret_config ''url'' False,
                  sr_field = None\<rparr>],
      r_title = None, r_description = None, r_mode = None, expiresIn = None,
      r_maxSubmissions = Some n\<rparr>"

definition ex_create_env :: create_env where
  "ex_create_env =
     \<lparr>presets = (\<lambda>t. None), schemaId = ''form-1'', sessionId = ''session-1'', ce_now = 0,
      tunnel = Inr (''tunnel-1'', ''https://tunnel.example'')\<rparr>"

definition ex_service :: "int \<Rightarrow> unit state form_service" where
  "ex_service n =
     snd (createSecretForm ex_create_env (ex_request n) (ex_ctx User ''user-1'') None
            \<lparr>sessions = [], heap = [], servers = [], nextPort = 10000, closedTunnels = [],
             setCalls = [], manager = ex_state\<rparr>)"

text \<open>The session object that this creates, and two submissions.\<close>

definition ex_session :: "int \<Rightarrow> form_session" where
  "ex_session n =
     \<lparr>fs_id = ''session-1'', formId = ''form-1'', tunnelId = ''tunnel-1'', port = 10000,
      url = ''https://tunnel.example'', schema = generateFormSchema ex_create_env (ex_request n),
      request = ex_request n, createdAt = 0,
      fs_expiresAt = sch_expiresAt (generateFormSchema ex_create_env (ex_request n)),
      submissions = [], status = Active, callback = None\<rparr>"

definition ex_body :: payload where
  "ex_body = [''API_KEY'' \<mapsto> ''sk-1'']"

definition ex_body2 :: payload where
  "ex_body2 = [''API_KEY'' \<mapsto> ''sk-1'', ''WEBHOOK_URL'' \<mapsto> ''https://hook.example'']"

text \<open>
  A form for one required secret whose key is the name of a member that objects inherit,
  created in the same way.
\<close>

definition ex_member_request :: secret_form_request where
  "ex_member_request =
     \<lparr>secrets = [\<lparr>sr_key = ''constructor'', sr_config = ex_secret_config ''api_key'' True,
                  sr_field = None\<rparr>],
      r_title = None, r_description = None, r_mode = None, expiresIn = None,
      r_maxSubmissions = Some 1\<rparr>"

definition ex_member_service :: "unit state form_service" where
  "ex_member_service =
     snd (createSecretForm ex_create_env ex_member_request (ex_ctx User ''user-1'') None
            \<lparr>sessions = [], heap = [], servers = [], nextPort = 10000, closedTunnels = [],
             setCalls = [], manager = ex_state\<rparr>)"

definition ex_member_session :: form_session where
  "ex_member_session =
     \<lparr>fs_id = ''session-1'', formId = ''form-1'', tunnelId = ''tunnel-1'', port = 10000,
      url = ''https://tunnel.example'', schema = generateFormSchema ex_create_env ex_member_request,
      request = ex_member_request, createdAt = 0,
      fs_expiresAt = sch_expiresAt (generateFormSchema ex_create_env ex_member_request),
      submissions = [], status = Active, callback = None\<rparr>"

definition ex_mset :: "unit state manager_set" where
  "ex_mset key v context config m = set_secret ex_deps 0 key v context config m"

definition ex_failing_mset :: "unit state manager_set" where
  "ex_failing_mset key v context config m = (Inl (Error ''store unavailable''), m)"

section \<open>The audit log is bounded\<close>

lemma keep_last_keep_last:
  "keep_last n (keep_last n as @ zs) = keep_last n (as @ zs)"
proof (cases "length as \<le> n")
  case True
  then show ?thesis by (simp add: keep_last_def)
next
  case False
  then have k: "length as - n \<le> length as" and l: "length as - (length as - n) = n" by simp_all
  have "drop (length as - n) as @ zs = drop (length as - n) (as @ zs)"
    by simp
  then have "keep_last n (keep_last n as @ zs) = drop (length zs) (drop (length as - n) (as @ zs))"
    using False by (simp add: keep_last_def)
  also have "\<dots> = drop (length zs + (length as - n)) (as @ zs)"
    by (simp only: drop_drop)
  also have "\<dots> = keep_last n (as @ zs)"
    using False by (simp add: keep_last_def add.commute)
  finally show ?thesis .
qed

lemma accessLogs_logAccess:
  "accessLogs (logAccess key act ctx ok err s) = keep_last 1000 (accessLogs s @ [log_entry key act ctx ok err s])"
  by (simp add: logAccess_def keep_last_def Let_def)

lemma length_keep_last: "length (keep_last n xs) = min n (length xs)"
  by (simp add: keep_last_def)

lemma logAccess_length: "length (accessLogs (logAccess key act ctx ok err s)) \<le> 1000"
  by (simp add: accessLogs_logAccess length_keep_last)

lemma get_length: "length (accessLogs (snd (get d key ctx s))) \<le> 1000"
  by (simp add: get_def Let_def logAccess_length split: sum.splits)

lemma set_body_logs: "set_body d iv key v ctx config s = Inr (r, s') \<Longrightarrow> accessLogs s' = accessLogs s"
  by (auto simp: set_body_def Let_def setGlobalSecret_def setWorldSecret_def setUserSecret_def
      split: if_splits level.splits sum.splits option.splits)

lemma set_length: "length (accessLogs (snd (set_secret d iv key v ctx config s))) \<le> 1000"
  by (auto simp: set_secret_def Let_def logAccess_length set_body_logs split: sum.splits)

lemma updateSecretConfig_length:
  "length (accessLogs (snd (updateSecretConfig d iv key ctx config s))) \<le> 1000"
proof -
  obtain r s1 where g: "get d key ctx s = (r, s1)" by (cases "get d key ctx s")
  then have "length (accessLogs s1) \<le> 1000" using get_length [of d key ctx s] by simp
  then show ?thesis
    using g by (simp add: updateSecretConfig_def set_length split: sum.splits option.splits)
qed

lemma grantAccess_length:
  "length (accessLogs s) \<le> 1000 \<Longrightarrow>
   length (accessLogs (snd (grantAccess d iv key ctx grantee perms s))) \<le> 1000"
  by (simp add: grantAccess_def Let_def updateSecretConfig_length
      split: sum.splits property.splits)

lemma revokeAccess_length:
  "length (accessLogs s) \<le> 1000 \<Longrightarrow>
   length (accessLogs (snd (revokeAccess d iv key ctx grantee s))) \<le> 1000"
  by (simp add: revokeAccess_def Let_def updateSecretConfig_length
      split: sum.splits property.splits)

lemma logAccess_full:
  assumes "length (accessLogs s) = 1000"
  shows "accessLogs (logAccess key act ctx ok err s) = tl (accessLogs s) @ [log_entry key act ctx ok err s]"
proof -
  have "accessLogs s \<noteq> []" using assms by auto
  then show ?thesis
    using assms by (simp add: accessLogs_logAccess keep_last_def drop_Suc)
qed

lemma getAccessLogs_subset: "set (getAccessLogs k c s) \<subseteq> set (accessLogs s)"
  by (simp add: getAccessLogs_def)

text \<open>
  Claim C5. The access log never holds more than 1000 entries once a logged operation has
  completed: \<open>logAccess\<close>, \<open>get\<close> and \<open>set\<close> always leave at most 1000 entries, and
  \<open>grantAccess\<close> and \<open>revokeAccess\<close> keep a log of at most 1000 entries within the bound.
  When the log is full, inserting one more entry evicts the oldest one in the same step,
  and \<open>getAccessLogs\<close> returns only entries of the remaining 999 and the new one.
\<close>

theorem access_log_capacity:
  "length (accessLogs (logAccess key act ctx ok err s)) \<le> 1000
   \<and> length (accessLogs (snd (get d key ctx s))) \<le> 1000
   \<and> length (accessLogs (snd (set_secret d iv key v ctx config s))) \<le> 1000
   \<and> (length (accessLogs s) \<le> 1000 \<longrightarrow>
        length (accessLogs (snd (grantAccess d iv key ctx grantee perms s))) \<le> 1000
        \<and> length (accessLogs (snd (revokeAccess d iv key ctx grantee s))) \<le> 1000)
   \<and> (length (accessLogs s) = 1000 \<longrightarrow>
        accessLogs (logAccess key act ctx ok err s)
          = tl (accessLogs s) @ [log_entry key act ctx ok err s]
        \<and> set (getAccessLogs k c (logAccess key act ctx ok err s))
            \<subseteq> set (tl (accessLogs s)) \<union> {log_entry key act ctx ok err s})"
proof (intro conjI impI)
  assume full: "length (accessLogs s) = 1000"
  show "set (getAccessLogs k c (logAccess key act ctx ok err s))
            \<subseteq> set (tl (accessLogs s)) \<union> {log_entry key act ctx ok err s}"
    using getAccessLogs_subset [of k c "logAccess key act ctx ok err s"] full
    by (simp add: logAccess_full)
qed (simp_all add: logAccess_length get_length set_length grantAccess_length
       revokeAccess_length logAccess_full)

text \<open>
  On a full log whose oldest entry is the only one for the key \<open>OLD\<close>: after one more
  entry, \<open>getAccessLogs\<close> finds nothing for \<open>OLD\<close>.
\<close>

theorem access_log_capacity_witness:
  "length (accessLogs ex_full) = 1000
   \<and> accessLogs (logAccess ''KEY'' Write (ex_ctx Global ''agent-1'') True None ex_full)
       = replicate 999 (log_entry ''KEY'' Read (ex_ctx Global ''agent-1'') True None ex_state)
          @ [log_entry ''KEY'' Write (ex_ctx Global ''agent-1'') True None ex_state]
   \<and> getAccessLogs ''OLD'' None ex_full
       = [log_entry ''OLD'' Read (ex_ctx Global ''agent-1'') True None ex_state]
   \<and> getAccessLogs ''OLD'' None (logAccess ''KEY'' Write (ex_ctx Global ''agent-1'') True None ex_full) = []"
proof -
  have len: "length (accessLogs ex_full) = 1000"
    by (simp add: ex_full_def)
  have e: "log_entry ''KEY'' Write (ex_ctx Global ''agent-1'') True None ex_full
         = log_entry ''KEY'' Write (ex_ctx Global ''agent-1'') True None ex_state"
    by (simp add: log_entry_def ex_full_def)
  have sk: "secretKey (log_entry k a c ok er st) = k" for k a c ok er and st :: "unit state"
    by (simp add: log_entry_def)
  from len access_log_capacity [where key = "''KEY''" and act = Write
      and ctx = "ex_ctx Global ''agent-1''" and ok = True and err = None and s = ex_full
      and d = ex_deps and k = "''OLD''" and c = None]
  have logs: "accessLogs (logAccess ''KEY'' Write (ex_ctx Global ''agent-1'') True None ex_full)
       = tl (accessLogs ex_full) @ [log_entry ''KEY'' Write (ex_ctx Global ''agent-1'') True None ex_full]"
    by simp
  show ?thesis
    using len logs e by (simp add: getAccessLogs_def sk) (simp add: ex_full_def sk)
qed

section \<open>Listings carry no values\<close>

lemma c_value_strip_value: "c_value (strip_value c) = None"
  by (simp add: strip_value_def with_value_def)

lemma c_value_strip_metadata: "c_value (strip_metadata m) = None"
  by (simp add: strip_metadata_def empty_config_def c_value_strip_value split: option.splits)

lemma list_user_values:
  "list_user cs m0 = Inr m \<Longrightarrow> (\<And>k cfg. m0 k = Some cfg \<Longrightarrow> c_value cfg = None)
     \<Longrightarrow> m k = Some cfg \<Longrightarrow> c_value cfg = None"
proof (induction cs arbitrary: m0)
  case Nil
  then show ?case by simp
next
  case (Cons c cs)
  show ?case
  proof (cases "comp_type c = ''secret''")
    case False
    with Cons show ?thesis by simp
  next
    case True
    with Cons.prems(1) obtain dt where dt: "comp_data c = Some dt"
      by (cases "comp_data c") auto
    let ?m1 = "m0((case d_key dt of None \<Rightarrow> ''undefined'' | Some k \<Rightarrow> k) \<mapsto> strip_metadata (d_metadata dt))"
    have l: "list_user cs ?m1 = Inr m"
      using Cons.prems(1) True dt by simp
    have "\<And>k cfg. ?m1 k = Some cfg \<Longrightarrow> c_value cfg = None"
      using Cons.prems(2) by (auto simp: c_value_strip_metadata split: if_splits)
    from Cons.IH [OF l this Cons.prems(3)] show ?thesis .
  qed
qed

lemma list_secrets_values:
  "list_secrets ctx s = Inr m \<Longrightarrow> m k = Some cfg \<Longrightarrow> c_value cfg = None"
proof (cases "level ctx")
  case Global
  then show "list_secrets ctx s = Inr m \<Longrightarrow> m k = Some cfg \<Longrightarrow> c_value cfg = None"
    by (auto simp: list_secrets_def c_value_strip_value)
next
  case World
  then show "list_secrets ctx s = Inr m \<Longrightarrow> m k = Some cfg \<Longrightarrow> c_value cfg = None"
    by (auto simp: list_secrets_def c_value_strip_value split: if_splits option.splits)
next
  case User
  then show "list_secrets ctx s = Inr m \<Longrightarrow> m k = Some cfg \<Longrightarrow> c_value cfg = None"
    using list_user_values [of _ Map.empty m k cfg]
    by (auto simp: list_secrets_def split: if_splits)
qed

lemma list_user_has_key:
  "list_user cs m0 = Inr m \<Longrightarrow>
   m0 key \<noteq> None \<or> (\<exists>c\<in>set cs. is_secret_for key c) \<Longrightarrow> m key \<noteq> None"
proof (induction cs arbitrary: m0)
  case Nil
  then show ?case by simp
next
  case (Cons c cs)
  show ?case
  proof (cases "comp_type c = ''secret''")
    case False
    with Cons.prems have "list_user cs m0 = Inr m"
      and "m0 key \<noteq> None \<or> (\<exists>c\<in>set cs. is_secret_for key c)"
      by (auto simp: is_secret_for_def)
    then show ?thesis by (rule Cons.IH)
  next
    case True
    with Cons.prems(1) obtain dt where dt: "comp_data c = Some dt"
      by (cases "comp_data c") auto
    let ?m1 = "m0((case d_key dt of None \<Rightarrow> ''undefined'' | Some k \<Rightarrow> k) \<mapsto> strip_metadata (d_metadata dt))"
    have l: "list_user cs ?m1 = Inr m"
      using Cons.prems(1) True dt by simp
    have "?m1 key \<noteq> None \<or> (\<exists>c\<in>set cs. is_secret_for key c)"
      using Cons.prems(2) dt by (auto simp: is_secret_for_def)
    with l show ?thesis by (rule Cons.IH)
  qed
qed

lemma set_secret_True:
  "set_secret d iv key v ctx config s = (Inr True, s') \<Longrightarrow>
   checkPermission key Write ctx (logAccess key Write ctx True None s)
   \<and> set_body d iv key v ctx config (logAccess key Write ctx True None s) = Inr (True, s')"
  by (auto simp: set_secret_def Let_def split: if_splits sum.splits)

lemma find_filter: "find P (filter Q xs) = find (\<lambda>x. Q x \<and> P x) xs"
  by (induction xs) auto

lemma find_replaced:
  "find R xs = Some ex \<Longrightarrow> R c' \<Longrightarrow>
   find R (map (\<lambda>x. if comp_id x = comp_id ex then c' else x) xs) = Some c'"
  by (induction xs) (auto split: if_splits)

lemma find_appended: "find R xs = None \<Longrightarrow> R c' \<Longrightarrow> find R (xs @ [c']) = Some c'"
  by (induction xs) (auto split: if_splits)

text \<open>After a successful write for a user, the first secret component of the key is the one just written.\<close>

lemma setUserSecret_find:
  assumes "setUserSecret d iv key v uid config s = Inr (True, s')"
  shows "\<exists>fv c. final_value d (encryptionKey s) iv config v = Inr fv
           \<and> find (is_secret_for key) (getComponents uid s') = Some c
           \<and> comp_type c = ''secret''
           \<and> comp_data c = Some \<lparr>d_key = Some key, d_value = Some fv, d_metadata = Some config,
                                   d_encrypted = None, d_updatedAt = Some (now s)\<rparr>
           \<and> encryptionKey s' = encryptionKey s"
proof -
  from assms obtain fv where fv: "final_value d (encryptionKey s) iv config v = Inr fv"
    by (auto simp: setUserSecret_def Let_def split: sum.splits)
  let ?dt = "\<lparr>d_key = Some key, d_value = Some fv, d_metadata = Some config,
              d_encrypted = None, d_updatedAt = Some (now s)\<rparr>"
  let ?R = "\<lambda>x. comp_entityId x = uid \<and> is_secret_for key x"
  show ?thesis
  proof (cases "find ?R (components s)")
    case None
    let ?c = "\<lparr>comp_id = uid @ ''-'' @ key, comp_type = ''secret'', comp_entityId = uid, comp_data = Some ?dt\<rparr>"
    from None assms fv have s': "s' = s\<lparr>components := components s @ [?c]\<rparr>"
      by (simp add: setUserSecret_def Let_def getComponents_def find_filter createComponent_def)
    have "?R ?c" by (simp add: is_secret_for_def)
    with None have "find ?R (components s @ [?c]) = Some ?c" by (rule find_appended)
    then have "find (is_secret_for key) (getComponents uid s') = Some ?c"
      unfolding getComponents_def find_filter s' by simp
    then show ?thesis using fv s' by simp
  next
    case (Some ex)
    let ?c = "ex\<lparr>comp_data := Some ?dt\<rparr>"
    from Some assms fv have s': "s' = s\<lparr>components := updateComponent ?c (components s)\<rparr>"
      by (simp add: setUserSecret_def Let_def getComponents_def find_filter)
    from Some have "?R ex" by (auto simp: find_Some_iff)
    then have R: "?R ?c" by (simp add: is_secret_for_def)
    from Some R have "find ?R (map (\<lambda>x. if comp_id x = comp_id ex then ?c else x) (components s)) = Some ?c"
      by (rule find_replaced)
    then have "find ?R (updateComponent ?c (components s)) = Some ?c"
      by (simp add: updateComponent_def)
    then have "find (is_secret_for key) (getComponents uid s') = Some ?c"
      unfolding getComponents_def find_filter s' by simp
    moreover have "comp_type ?c = ''secret''" using R by (simp add: is_secret_for_def)
    ultimately show ?thesis using fv s' by simp
  qed
qed

lemma set_body_listed:
  assumes "set_body d iv key v ctx config s = Inr (True, s')"
    and "list_secrets ctx s' = Inr m"
  shows "m key \<noteq> None"
proof (cases "level ctx")
  case Global
  with assms show ?thesis
    by (auto simp: set_body_def Let_def setGlobalSecret_def list_secrets_def
        split: if_splits sum.splits)
next
  case World
  with assms show ?thesis
    by (auto simp: set_body_def Let_def setWorldSecret_def list_secrets_def
        split: if_splits sum.splits option.splits)
next
  case User
  with assms have su: "setUserSecret d iv key v (or_else (userId ctx) []) (fullConfig key v ctx config (now s)) s = Inr (True, s')"
    and l: "list_user (getComponents (or_else (userId ctx) []) s') Map.empty = Inr m"
    by (auto simp: set_body_def Let_def list_secrets_def split: if_splits)
  from setUserSecret_find [OF su] obtain c where
    "find (is_secret_for key) (getComponents (or_else (userId ctx) []) s') = Some c"
    by blast
  then have "\<exists>c\<in>set (getComponents (or_else (userId ctx) []) s'). is_secret_for key c"
    by (auto simp: find_Some_iff)
  with l show ?thesis by (intro list_user_has_key) auto
qed

text \<open>
  Claim C6. Every entry of the mapping that \<open>list\<close> returns has no value, neither
  plaintext nor ciphertext; and right after a successful \<open>set\<close> of a key, a listing for
  the same context has an entry for that key, again without a value.
\<close>

theorem list_never_includes_value:
  "(list_secrets ctx s = Inr m \<and> m k = Some cfg \<longrightarrow> c_value cfg = None)
   \<and> (set_secret d iv key v ctx config s = (Inr True, s') \<and> list_secrets ctx s' = Inr m'
        \<longrightarrow> (\<exists>cfg'. m' key = Some cfg' \<and> c_value cfg' = None))"
proof (intro conjI impI)
  assume "list_secrets ctx s = Inr m \<and> m k = Some cfg"
  then show "c_value cfg = None" using list_secrets_values by blast
next
  assume a: "set_secret d iv key v ctx config s = (Inr True, s') \<and> list_secrets ctx s' = Inr m'"
  then have "set_body d iv key v ctx config (logAccess key Write ctx True None s) = Inr (True, s')"
    using set_secret_True by blast
  with a have "m' key \<noteq> None" using set_body_listed by blast
  then obtain cfg' where "m' key = Some cfg'" by blast
  moreover from this a have "c_value cfg' = None" using list_secrets_values by blast
  ultimately show "\<exists>cfg'. m' key = Some cfg' \<and> c_value cfg' = None" by blast
qed

section \<open>Encryption round trip\<close>

lemma xor_cancel: "((b::byte) XOR k) XOR k = b"
  by (simp add: xor.assoc)

lemma gcm_xor_involution: "gcm_xor ks n (gcm_xor ks n bs) = bs"
  by (induction bs arbitrary: n) (simp_all add: xor_cancel)

lemma char_of_byte_of: "char_of_byte (byte_of c) = c"
proof -
  have "(of_char c :: byte) = of_nat (of_char c :: nat)"
    by (simp only: of_nat_of_char)
  then have "unat (of_char c :: byte) = (of_char c :: nat) mod 2 ^ LENGTH(8)"
    by (simp only: unat_of_nat)
  then have "unat (of_char c :: byte) = (of_char c :: nat)"
    by simp
  then show ?thesis by (simp add: char_of_byte_def byte_of_def)
qed

lemma chars_of_bytes_of: "map (char_of_byte \<circ> byte_of) s = s"
  by (induction s) (simp_all add: char_of_byte_of)

lemma decrypt_encrypt:
  "encrypt d k iv (Plain v) = Inr e \<Longrightarrow> decrypt d k (Some (Enc e)) = Inr v"
  by (auto simp: encrypt_def decrypt_def Let_def gcm_xor_involution chars_of_bytes_of)


section \<open>Reading back what was written\<close>

lemma checkPermission_logAccess [simp]:
  "checkPermission key act ctx (logAccess k a c ok err s) = checkPermission key act ctx s"
  by (simp add: checkPermission_def logAccess_def Let_def)

lemma getGlobalSecret_logs [simp]:
  "getGlobalSecret d key (s\<lparr>accessLogs := l\<rparr>) = getGlobalSecret d key s"
  by (simp add: getGlobalSecret_def Let_def cong: property.case_cong if_cong)

lemma getWorldSecret_logs [simp]:
  "getWorldSecret d key w (s\<lparr>accessLogs := l\<rparr>) = getWorldSecret d key w s"
  by (simp add: getWorldSecret_def cong: option.case_cong property.case_cong if_cong)

lemma getUserSecret_logs [simp]:
  "getUserSecret d key u (s\<lparr>accessLogs := l\<rparr>) = getUserSecret d key u s"
  by (simp add: getUserSecret_def getComponents_def cong: option.case_cong if_cong)

lemma get_switch_logs [simp]:
  "get_switch d key ctx (s\<lparr>accessLogs := l\<rparr>) = get_switch d key ctx s"
  by (simp add: get_switch_def cong: level.case_cong if_cong)

lemma get_switch_logAccess [simp]:
  "get_switch d key ctx (logAccess k a c ok err s) = get_switch d key ctx s"
  by (simp add: logAccess_def Let_def)

lemma with_value_sel [simp]:
  "c_value (with_value c v) = v" "c_encrypted (with_value c v) = c_encrypted c"
  by (simp_all add: with_value_def)

lemma fullConfig_sel [simp]:
  "c_value (fullConfig key v ctx config t) = Some v"
  "c_encrypted (fullConfig key v ctx config t)
     = Some (case Option.bind config c_encrypted of None \<Rightarrow> True | Some e \<Rightarrow> e)"
  by (simp_all add: fullConfig_def)

lemma read_after_write:
  assumes "checkPermission key Write ctx s" and "set_body d iv key v ctx config s = Inr (True, s')"
  shows "checkPermission key Read ctx s'"
proof (cases "level ctx")
  case Global
  then show ?thesis by (simp add: checkPermission_def)
next
  case World
  with assms show ?thesis
    by (auto simp: checkPermission_def set_body_def Let_def setWorldSecret_def
        split: if_splits option.splits sum.splits)
next
  case User
  with assms show ?thesis
    by (auto simp: checkPermission_def set_body_def Let_def setUserSecret_def
        split: if_splits option.splits sum.splits)
qed

lemma final_value_cases:
  assumes "final_value d k iv config (Plain v) = Inr fv"
  shows "(c_encrypted config = Some True \<and> (\<exists>e. fv = Enc e \<and> encrypt d k iv (Plain v) = Inr e))
       \<or> (c_encrypted config \<noteq> Some True \<and> fv = Plain v)"
  using assms
  by (cases "encrypt d k iv (Plain v)") (auto simp: final_value_def split: if_splits)

lemma encrypt_algorithm: "encrypt d k iv (Plain v) = Inr e \<Longrightarrow> e_algorithm e = ''aes-256-gcm''"
  by (auto simp: encrypt_def Let_def)

lemma get_switch_after_set:
  assumes sb: "set_body d iv key (Plain v) ctx config s = Inr (True, s')"
    and nonempty: "v \<noteq> [] \<or> (level ctx \<noteq> Global \<and> Option.bind config c_encrypted \<noteq> Some False)"
    and envc: "level ctx = Global \<longrightarrow>
                \<not> truthy (getEnvVar d (env s') key) \<or> getEnvVar d (env s') key = Some v"
  shows "get_switch d key ctx s' = Inr (Some (Plain v))"
proof (cases "level ctx")
  case Global
  with sb have c: "globalCache s' key = Some (fullConfig key (Plain v) ctx config (now s))"
    by (auto simp: set_body_def Let_def setGlobalSecret_def split: if_splits sum.splits)
  from Global nonempty have v: "v \<noteq> []" by simp
  from Global envc have "\<not> truthy (getEnvVar d (env s') key) \<or> getEnvVar d (env s') key = Some v"
    by simp
  then show ?thesis
    using Global c v
    by (auto simp: get_switch_def getGlobalSecret_def get_prop_def Let_def or_null_def)
next
  case World
  let ?wid = "or_else (worldId ctx) []"
  let ?cfg = "fullConfig key (Plain v) ctx config (now s)"
  from World sb have t: "truthy (worldId ctx)"
    and sw: "setWorldSecret d iv key (Plain v) ?wid ?cfg s = Inr (True, s')"
    by (auto simp: set_body_def Let_def split: if_splits)
  from sw obtain fv where fv: "final_value d (encryptionKey s) iv ?cfg (Plain v) = Inr fv"
    and c: "get_prop_opt (worldCache s' ?wid) key = Own (with_value ?cfg (Some fv))"
    and k: "encryptionKey s' = encryptionKey s"
    by (auto simp: setWorldSecret_def Let_def get_prop_opt_def get_prop_def
        split: option.splits sum.splits)
  from final_value_cases [OF fv] show ?thesis
  proof
    assume "c_encrypted ?cfg = Some True \<and> (\<exists>e. fv = Enc e \<and> encrypt d (encryptionKey s) iv (Plain v) = Inr e)"
    then obtain e where e: "c_encrypted ?cfg = Some True" "fv = Enc e"
      "encrypt d (encryptionKey s) iv (Plain v) = Inr e" by blast
    then show ?thesis
      using World t c k decrypt_encrypt [OF e(3)]
      by (simp add: get_switch_def getWorldSecret_def)
  next
    assume a: "c_encrypted ?cfg \<noteq> Some True \<and> fv = Plain v"
    then have "Option.bind config c_encrypted = Some False"
      by (auto split: option.splits)
    with nonempty have "v \<noteq> []" by simp
    then show ?thesis
      using World t c a by (simp add: get_switch_def getWorldSecret_def or_null_def)
  qed
next
  case User
  let ?uid = "or_else (userId ctx) []"
  let ?cfg = "fullConfig key (Plain v) ctx config (now s)"
  from User sb have t: "truthy (userId ctx)"
    and su: "setUserSecret d iv key (Plain v) ?uid ?cfg s = Inr (True, s')"
    by (auto simp: set_body_def Let_def split: if_splits)
  from setUserSecret_find [OF su] obtain fv c where
    fv: "final_value d (encryptionKey s) iv ?cfg (Plain v) = Inr fv"
    and f: "find (is_secret_for key) (getComponents ?uid s') = Some c"
    and dt: "comp_data c = Some \<lparr>d_key = Some key, d_value = Some fv, d_metadata = Some ?cfg,
                                   d_encrypted = None, d_updatedAt = Some (now s)\<rparr>"
    and k: "encryptionKey s' = encryptionKey s"
    by blast
  from final_value_cases [OF fv] show ?thesis
  proof
    assume "c_encrypted ?cfg = Some True \<and> (\<exists>e. fv = Enc e \<and> encrypt d (encryptionKey s) iv (Plain v) = Inr e)"
    then obtain e where e: "c_encrypted ?cfg = Some True" "fv = Enc e"
      "encrypt d (encryptionKey s) iv (Plain v) = Inr e" by blast
    then show ?thesis
      using User t f dt k decrypt_encrypt [OF e(3)] encrypt_algorithm [OF e(3)]
      by (simp add: get_switch_def getUserSecret_def is_encrypted_object_def)
  next
    assume a: "c_encrypted ?cfg \<noteq> Some True \<and> fv = Plain v"
    then have "Option.bind config c_encrypted = Some False"
      by (auto split: option.splits)
    with nonempty have "v \<noteq> []" by simp
    then show ?thesis
      using User t f dt a
      by (simp add: get_switch_def getUserSecret_def is_encrypted_object_def or_null_def)
  qed
qed

text \<open>
  Claim C1, as amended. For every level, when \<open>set(k, v, ctx)\<close> returns true for a string
  \<open>v\<close>, a following \<open>get(k, ctx)\<close> with the same context returns exactly \<open>v\<close>,
  provided that \<open>v\<close> is not empty or the record is stored encrypted (world and user
  level), and, at the global level, that the parent service's environment lookup of \<open>k\<close>
  is then empty or \<open>v\<close> (\<open>get\<close> returns that lookup first). A successful \<open>set\<close>
  implies that the context authorizes the write, and then it authorizes the read.
\<close>

theorem set_get_roundtrip:
  assumes "set_secret d iv key (Plain v) ctx config s = (Inr True, s')"
    and "v \<noteq> [] \<or> (level ctx \<noteq> Global \<and> Option.bind config c_encrypted \<noteq> Some False)"
    and "level ctx = Global \<longrightarrow>
           \<not> truthy (getEnvVar d (env s') key) \<or> getEnvVar d (env s') key = Some v"
  shows "fst (get d key ctx s') = Inr (Some (Plain v))"
proof -
  from set_secret_True [OF assms(1)] have
    p: "checkPermission key Write ctx s"
    and sb: "set_body d iv key (Plain v) ctx config (logAccess key Write ctx True None s) = Inr (True, s')"
    by simp_all
  from p have "checkPermission key Write ctx (logAccess key Write ctx True None s)" by simp
  then have r: "checkPermission key Read ctx s'" using sb by (rule read_after_write)
  have "get_switch d key ctx s' = Inr (Some (Plain v))"
    using sb assms(2) assms(3) by (rule get_switch_after_set)
  with r show ?thesis by (simp add: get_def Let_def)
qed

section \<open>Runs on the concrete state\<close>

lemmas store_defs =
  set_secret_def set_body_def get_def get_switch_def logAccess_def log_entry_def keep_last_def
  checkPermission_def fullConfig_def setGlobalSecret_def setWorldSecret_def setUserSecret_def
  getGlobalSecret_def getWorldSecret_def getUserSecret_def getComponents_def final_value_def
  is_secret_for_def is_encrypted_object_def createComponent_def updateComponent_def
  strip_env_prefix_def truthy_def or_else_def or_null_def get_prop_def get_prop_opt_def
  ex_deps_def ex_state_def ex_world_def ex_ctx_def ex_config_def

text \<open>
  Claim C1 as stated fails for the empty string stored as plaintext: \<open>set\<close> returns
  true and the following \<open>get\<close> returns \<open>null\<close>, because \<open>value || null\<close> takes the
  empty string for a missing value.
\<close>

theorem empty_plaintext_counterexample:
  "fst (set_secret ex_deps 0 ''API_KEY'' (Plain []) (ex_ctx User ''user-1'')
          (Some (ex_config False)) ex_state) = Inr True
   \<and> fst (get ex_deps ''API_KEY'' (ex_ctx User ''user-1'')
            (snd (set_secret ex_deps 0 ''API_KEY'' (Plain []) (ex_ctx User ''user-1'')
                    (Some (ex_config False)) ex_state))) = Inr None"
  by (simp add: store_defs Let_def)

lemma ex_set_world:
  "fst (set_secret ex_deps 0 ''API_KEY'' (Plain ''sk-1'') (ex_ctx World ''owner-1'') None ex_state) = Inr True"
  by (simp add: store_defs Let_def encrypt_def)

lemma ex_set_user:
  "fst (set_secret ex_deps 0 ''API_KEY'' (Plain ''sk-1'') (ex_ctx User ''user-1'') None ex_state) = Inr True"
  by (simp add: store_defs Let_def encrypt_def)

lemma ex_set_global:
  "fst (set_secret ex_deps 0 ''API_KEY'' (Plain ''sk-1'') (ex_ctx Global ''agent-1'') None ex_state) = Inr True"
  by (simp add: store_defs Let_def encrypt_def)

text \<open>The round trip at the three levels (encrypted for the world and the user).\<close>

theorem set_get_roundtrip_witness:
  "fst (get ex_deps ''API_KEY'' (ex_ctx World ''owner-1'')
          (snd (set_secret ex_deps 0 ''API_KEY'' (Plain ''sk-1'') (ex_ctx World ''owner-1'') None ex_state)))
     = Inr (Some (Plain ''sk-1''))
   \<and> fst (get ex_deps ''API_KEY'' (ex_ctx User ''user-1'')
          (snd (set_secret ex_deps 0 ''API_KEY'' (Plain ''sk-1'') (ex_ctx User ''user-1'') None ex_state)))
     = Inr (Some (Plain ''sk-1''))
   \<and> fst (get ex_deps ''API_KEY'' (ex_ctx Global ''agent-1'')
          (snd (set_secret ex_deps 0 ''API_KEY'' (Plain ''sk-1'') (ex_ctx Global ''agent-1'') None ex_state)))
     = Inr (Some (Plain ''sk-1''))"
proof -
  let ?w = "set_secret ex_deps 0 ''API_KEY'' (Plain ''sk-1'') (ex_ctx World ''owner-1'') None ex_state"
  let ?u = "set_secret ex_deps 0 ''API_KEY'' (Plain ''sk-1'') (ex_ctx User ''user-1'') None ex_state"
  let ?g = "set_secret ex_deps 0 ''API_KEY'' (Plain ''sk-1'') (ex_ctx Global ''agent-1'') None ex_state"
  have w: "?w = (Inr True, snd ?w)" using ex_set_world by (simp add: prod_eq_iff)
  have u: "?u = (Inr True, snd ?u)" using ex_set_user by (simp add: prod_eq_iff)
  have g: "?g = (Inr True, snd ?g)" using ex_set_global by (simp add: prod_eq_iff)
  have ne: "''sk-1'' \<noteq> [] \<or> P" for P by simp
  have e: "level (ex_ctx Global ''agent-1'') = Global \<longrightarrow>
           \<not> truthy (getEnvVar ex_deps (env (snd ?g)) ''API_KEY'')
           \<or> getEnvVar ex_deps (env (snd ?g)) ''API_KEY'' = Some ''sk-1''"
    by (simp add: ex_deps_def truthy_def)
  have l: "level (ex_ctx l who) = Global \<longrightarrow> Q" if "l \<noteq> Global" for l who Q
    using that by (simp add: ex_ctx_def)
  show ?thesis
    using set_get_roundtrip [OF w ne l] set_get_roundtrip [OF u ne l] set_get_roundtrip [OF g ne e]
    by simp
qed

section \<open>The permission rules of the code\<close>

lemma checkPermission_rules:
  "checkPermission key act ctx s \<longleftrightarrow>
     (case level ctx of
        Global \<Rightarrow> act = Read \<or> requesterId ctx = Some (rt_agentId s)
      | World \<Rightarrow>
          truthy (worldId ctx)
          \<and> (\<exists>world. worlds s (or_else (worldId ctx) []) = Some world
                \<and> (act = Read
                    \<or> get_prop_opt (w_roles world) (or_else (requesterId ctx) []) = Own OWNER
                    \<or> get_prop_opt (w_roles world) (or_else (requesterId ctx) []) = Own ADMIN))
      | User \<Rightarrow> truthy (userId ctx) \<and> requesterId ctx = userId ctx)"
  by (cases "level ctx")
    (auto simp: checkPermission_def Let_def split: option.splits property.splits)

lemma denied_set_keeps_store:
  assumes "\<not> checkPermission key Write ctx s"
  shows "fst (set_secret d iv key v ctx config s) = Inr False"
    and "(snd (set_secret d iv key v ctx config s))\<lparr>accessLogs := accessLogs s\<rparr> = s"
proof -
  from assms have p: "\<not> checkPermission key Write ctx (logAccess key Write ctx True None s)"
    by simp
  then show "fst (set_secret d iv key v ctx config s) = Inr False"
    by (simp add: set_secret_def Let_def)
  from p show "(snd (set_secret d iv key v ctx config s))\<lparr>accessLogs := accessLogs s\<rparr> = s"
    by (simp add: set_secret_def logAccess_def Let_def)
qed

text \<open>
  Claim C3 as stated fails for the read of a world secret: the permission check allows it
  without looking at the requester's role, so a requester who has no role in the world
  passes the check and reads the secret that the owner stored.
\<close>

theorem world_read_by_non_member:
  "get_prop_opt (w_roles ex_world) ''stranger-1'' = Undefined
   \<and> checkPermission ''API_KEY'' Read (ex_ctx World ''stranger-1'') ex_state
   \<and> fst (get ex_deps ''API_KEY'' (ex_ctx World ''stranger-1'') ex_stored) = Inr (Some (Plain ''sk-1''))"
  by (simp add: store_defs object_members_def ex_stored_def Let_def encrypt_def decrypt_def
      xor_cancel char_of_byte_of)

text \<open>
  Claim C3, as amended. The permission check follows the rule table in every row but the
  read of a world secret, which is allowed for every requester whenever the context names
  a world that exists. A global read is always allowed, and a global write, delete or
  share exactly when the requester is the agent. A world write, delete or share is allowed
  exactly when the world exists and the role recorded for the requester is \<open>OWNER\<close> or
  \<open>ADMIN\<close>. At the user level every action is allowed exactly when the context names a
  user and the requester is that user. A \<open>set\<close> that the check denies, as a user-level
  \<open>set\<close> whose requester is not the user always is, returns false and changes nothing
  but the audit log, so every stored value stays as it was.
\<close>

theorem permission_rule_table:
  "(checkPermission key act ctx s \<longleftrightarrow>
      (case level ctx of
         Global \<Rightarrow> act = Read \<or> requesterId ctx = Some (rt_agentId s)
       | World \<Rightarrow>
           truthy (worldId ctx)
           \<and> (\<exists>world. worlds s (or_else (worldId ctx) []) = Some world
                 \<and> (act = Read
                     \<or> get_prop_opt (w_roles world) (or_else (requesterId ctx) []) = Own OWNER
                     \<or> get_prop_opt (w_roles world) (or_else (requesterId ctx) []) = Own ADMIN))
       | User \<Rightarrow> truthy (userId ctx) \<and> requesterId ctx = userId ctx))
   \<and> (level ctx = User \<and> requesterId ctx \<noteq> userId ctx \<longrightarrow> \<not> checkPermission key Write ctx s)
   \<and> (\<not> checkPermission key Write ctx s \<longrightarrow>
        fst (set_secret d iv key v ctx config s) = Inr False
        \<and> (snd (set_secret d iv key v ctx config s))\<lparr>accessLogs := accessLogs s\<rparr> = s)"
proof -
  note 1 = checkPermission_rules [of key act ctx s]
  have 2: "level ctx = User \<and> requesterId ctx \<noteq> userId ctx \<longrightarrow> \<not> checkPermission key Write ctx s"
    by (simp add: checkPermission_rules)
  have 3: "\<not> checkPermission key Write ctx s \<longrightarrow>
        fst (set_secret d iv key v ctx config s) = Inr False
        \<and> (snd (set_secret d iv key v ctx config s))\<lparr>accessLogs := accessLogs s\<rparr> = s"
    using denied_set_keeps_store [of key ctx s d iv v config] by blast
  from 1 2 3 show ?thesis by (intro conjI)
qed

text \<open>
  On the concrete state: the owner may write to the world and the guest may not, a
  stranger may read from it, and a \<open>set\<close> for the user by somebody else is denied,
  returns false and leaves the state as it was but for the log.
\<close>

theorem permission_rule_table_witness:
  "checkPermission ''API_KEY'' Write (ex_ctx World ''owner-1'') ex_state
   \<and> \<not> checkPermission ''API_KEY'' Write (ex_ctx World ''guest-1'') ex_state
   \<and> checkPermission ''API_KEY'' Read (ex_ctx World ''stranger-1'') ex_state
   \<and> level (ex_ctx User ''intruder-1'') = User
   \<and> requesterId (ex_ctx User ''intruder-1'') \<noteq> userId (ex_ctx User ''intruder-1'')
   \<and> \<not> checkPermission ''API_KEY'' Write (ex_ctx User ''intruder-1'') ex_state
   \<and> fst (set_secret ex_deps 0 ''API_KEY'' (Plain ''stolen'') (ex_ctx User ''intruder-1'') None ex_state)
       = Inr False
   \<and> (snd (set_secret ex_deps 0 ''API_KEY'' (Plain ''stolen'') (ex_ctx User ''intruder-1'') None
              ex_state))\<lparr>accessLogs := accessLogs ex_state\<rparr> = ex_state"
proof -
  have u: "level (ex_ctx User ''intruder-1'') = User
           \<and> requesterId (ex_ctx User ''intruder-1'') \<noteq> userId (ex_ctx User ''intruder-1'')"
    by (simp add: ex_ctx_def)
  have w: "level (ex_ctx World who) = World" "truthy (worldId (ex_ctx World who))"
    "worlds ex_state (or_else (worldId (ex_ctx World who)) []) = Some ex_world"
    "or_else (requesterId (ex_ctx World who)) [] = (if who = [] then [] else who)" for who
    by (simp_all add: ex_ctx_def ex_state_def truthy_def or_else_def)
  have r: "get_prop_opt (w_roles ex_world) ''owner-1'' = Own OWNER"
    "get_prop_opt (w_roles ex_world) ''guest-1'' = Own NONE"
    by (simp_all add: ex_world_def get_prop_opt_def get_prop_def)
  from permission_rule_table [of "''API_KEY''" Write "ex_ctx World ''owner-1''" ex_state]
  have a: "checkPermission ''API_KEY'' Write (ex_ctx World ''owner-1'') ex_state"
    by (simp add: w r)
  from permission_rule_table [of "''API_KEY''" Write "ex_ctx World ''guest-1''" ex_state]
  have b: "\<not> checkPermission ''API_KEY'' Write (ex_ctx World ''guest-1'') ex_state"
    by (simp add: w r)
  from permission_rule_table [of "''API_KEY''" Read "ex_ctx World ''stranger-1''" ex_state]
  have c: "checkPermission ''API_KEY'' Read (ex_ctx World ''stranger-1'') ex_state"
    by (simp add: w)
  from u permission_rule_table [of "''API_KEY''" Write "ex_ctx User ''intruder-1''" ex_state
      ex_deps 0 "Plain ''stolen''" None]
  have d: "\<not> checkPermission ''API_KEY'' Write (ex_ctx User ''intruder-1'') ex_state
     \<and> fst (set_secret ex_deps 0 ''API_KEY'' (Plain ''stolen'') (ex_ctx User ''intruder-1'') None ex_state)
         = Inr False
     \<and> (snd (set_secret ex_deps 0 ''API_KEY'' (Plain ''stolen'') (ex_ctx User ''intruder-1'') None
                ex_state))\<lparr>accessLogs := accessLogs ex_state\<rparr> = ex_state"
    by blast
  from a b c u d show ?thesis by blast
qed


text \<open>
  A key that names an inherited member is read from the metadata of a world without a
  cache object as that member, not as \<open>null\<close>; once the world has a cache object the
  same read gives \<open>null\<close>.
\<close>

lemma ex_inherited_read:
  "absent ex_deps ''toString'' (ex_ctx World ''owner-1'') ex_state"
  "fst (get ex_deps ''toString'' (ex_ctx World ''owner-1'') ex_state)
     = Inr (Some (MemberV ''toString''))"
  "fst (get ex_deps ''toString'' (ex_ctx World ''owner-1'') ex_stored) = Inr None"
  by (simp_all add: absent_def store_defs object_members_def ex_stored_def Let_def encrypt_def)

section \<open>What get returns\<close>







section \<open>The entries written by one call\<close>

lemma log_entry_logs [simp]:
  "log_entry k a c ok err (s\<lparr>accessLogs := l\<rparr>) = log_entry k a c ok err s"
  by (simp add: log_entry_def)

lemma log_entry_logAccess [simp]:
  "log_entry k a c ok err (logAccess k' a' c' ok' err' s) = log_entry k a c ok err s"
  by (simp add: logAccess_def Let_def)


lemma logAccess_twice:
  "accessLogs (logAccess k2 a2 c2 ok2 err2 (logAccess k1 a1 c1 ok1 err1 s))
     = keep_last 1000 (accessLogs s @ [log_entry k1 a1 c1 ok1 err1 s, log_entry k2 a2 c2 ok2 err2 s])"
  using keep_last_keep_last [of 1000 "accessLogs s @ [log_entry k1 a1 c1 ok1 err1 s]"
      "[log_entry k2 a2 c2 ok2 err2 s]"]
  by (simp add: accessLogs_logAccess)





lemma log_action_log_entry [simp]: "log_action (log_entry k a c ok err s) = a"
  by (simp add: log_entry_def)







lemma accessLogs_push_cached [simp]: "accessLogs (push_cached key ctx p g s) = accessLogs s"
  by (simp add: push_cached_def Let_def split: level.splits option.splits)











text \<open>The listing after the owner's \<open>set\<close> on the concrete state.\<close>

theorem list_never_includes_value_witness:
  "fst (set_secret ex_deps 0 ''API_KEY'' (Plain ''sk-1'') (ex_ctx World ''owner-1'') None ex_state)
     = Inr True
   \<and> (\<exists>m cfg. list_secrets (ex_ctx World ''owner-1'') ex_stored = Inr m
        \<and> m ''API_KEY'' = Some cfg \<and> c_value cfg = None)"
proof -
  let ?w = "set_secret ex_deps 0 ''API_KEY'' (Plain ''sk-1'') (ex_ctx World ''owner-1'') None ex_state"
  have w: "?w = (Inr True, ex_stored)"
    using ex_set_world by (simp add: prod_eq_iff ex_stored_def)
  obtain m where m: "list_secrets (ex_ctx World ''owner-1'') ex_stored = Inr m"
    by (simp add: list_secrets_def ex_ctx_def truthy_def)
  from list_never_includes_value [where ctx = "ex_ctx World ''owner-1''" and d = ex_deps
      and iv = 0 and key = "''API_KEY''" and v = "Plain ''sk-1''" and config = None
      and s = ex_state and s' = ex_stored and m' = m] w m
  have "\<exists>cfg'. m ''API_KEY'' = Some cfg' \<and> c_value cfg' = None" by blast
  with m ex_set_world show ?thesis by blast
qed


section \<open>Persistence of a submission\<close>

lemma passed_Some:
  "passed dt secret = Some v \<Longrightarrow> read_field dt (sr_key secret) = Some v \<and> truthy_val (Some v)"
  by (auto simp: passed_def split: option.splits if_splits)

lemma passed_None:
  "passed dt secret = None \<Longrightarrow>
   read_field dt (sr_key secret) = None
   \<or> (\<exists>v. read_field dt (sr_key secret) = Some v \<and> \<not> truthy_val (Some v))"
  by (auto simp: passed_def split: option.splits if_splits)

lemma store_step_skip:
  "passed dt secret = None \<Longrightarrow>
   storeSubmittedSecrets mset (secret # secs) dt cx fsv
     = storeSubmittedSecrets mset secs dt cx fsv"
  using passed_None [of dt secret] by auto

lemma store_step_throw:
  "passed dt secret = Some v \<Longrightarrow>
   mset (sr_key secret) v cx (Some (sr_config secret)) (manager fsv) = (Inl e, m') \<Longrightarrow>
   storeSubmittedSecrets mset (secret # secs) dt cx fsv
     = (Some e, fsv\<lparr>manager := m', setCalls := setCalls fsv @ [(sr_key secret, v)]\<rparr>)"
  using passed_Some [of dt secret v] by simp

lemma store_step_return:
  "passed dt secret = Some v \<Longrightarrow>
   mset (sr_key secret) v cx (Some (sr_config secret)) (manager fsv) = (Inr b, m') \<Longrightarrow>
   storeSubmittedSecrets mset (secret # secs) dt cx fsv
     = storeSubmittedSecrets mset secs dt cx
         (fsv\<lparr>manager := m', setCalls := setCalls fsv @ [(sr_key secret, v)]\<rparr>)"
  using passed_Some [of dt secret v] by simp

lemma store_nil: "storeSubmittedSecrets mset [] dt cx fsv = (None, fsv)"
  by simp

declare storeSubmittedSecrets.simps [simp del]

text \<open>
  For a secret whose key is not the name of an inherited member, the value passed is the
  non-empty string of the body under that key.
\<close>

lemma passed_own:
  "sr_key secret \<notin> set object_members \<Longrightarrow>
   passed dt secret
     = (if truthy (dt (sr_key secret)) then Some (Plain (or_else (dt (sr_key secret)) [])) else None)"
  by (auto simp: passed_def read_field_def get_prop_def truthy_def or_else_def
      split: option.splits)

lemma to_store_skip:
  "\<not> truthy (dt (sr_key secret)) \<Longrightarrow> to_store (secret # secs) dt = to_store secs dt"
  by (simp add: to_store_def)

lemma to_store_keep:
  "truthy (dt (sr_key secret)) \<Longrightarrow>
   to_store (secret # secs) dt = (secret, or_else (dt (sr_key secret)) []) # to_store secs dt"
  by (simp add: to_store_def)

lemma store_returns:
  "storeSubmittedSecrets mset secs dt cx fsv = (None, fsv') \<Longrightarrow>
   \<forall>secret\<in>set secs. sr_key secret \<notin> set object_members \<Longrightarrow>
   setCalls fsv' = setCalls fsv @ map call_of (to_store secs dt)
   \<and> manager fsv' = run_sets mset cx (to_store secs dt) (manager fsv)
   \<and> all_return mset cx (to_store secs dt) (manager fsv)"
proof (induction secs arbitrary: fsv)
  case Nil
  then show ?case by (simp add: to_store_def store_nil)
next
  case (Cons secret secs)
  let ?v = "or_else (dt (sr_key secret)) []"
  let ?p = "(secret, ?v)"
  from Cons.prems(2) have own: "sr_key secret \<notin> set object_members"
    and rest: "\<forall>secret\<in>set secs. sr_key secret \<notin> set object_members"
    by simp_all
  show ?case
  proof (cases "truthy (dt (sr_key secret))")
    case False
    then have n: "passed dt secret = None" by (simp add: passed_own [OF own])
    from store_step_skip [OF n, of mset secs cx fsv] Cons.prems(1)
    have "storeSubmittedSecrets mset secs dt cx fsv = (None, fsv')" by simp
    from Cons.IH [OF this rest] show ?thesis
      by (simp add: to_store_skip [where dt = dt and secret = secret, OF False])
  next
    case True
    then have pv: "passed dt secret = Some (Plain ?v)" by (simp add: passed_own [OF own])
    obtain r m' where c: "call_set mset cx ?p (manager fsv) = (r, m')"
      by (cases "call_set mset cx ?p (manager fsv)")
    show ?thesis
    proof (cases r)
      case (Inl e)
      with c have "mset (sr_key secret) (Plain ?v) cx (Some (sr_config secret)) (manager fsv) = (Inl e, m')"
        by (simp add: call_set_def)
      from store_step_throw [where mset = mset and cx = cx and fsv = fsv and secs = secs, OF pv this] Cons.prems(1) show ?thesis by simp
    next
      case (Inr b)
      with c have c': "call_set mset cx ?p (manager fsv) = (Inr b, m')" by simp
      then have c'': "mset (sr_key secret) (Plain ?v) cx (Some (sr_config secret)) (manager fsv) = (Inr b, m')"
        by (simp add: call_set_def)
      let ?fsv1 = "fsv\<lparr>manager := m', setCalls := setCalls fsv @ [(sr_key secret, Plain ?v)]\<rparr>"
      from store_step_return [where mset = mset and cx = cx and fsv = fsv and secs = secs, OF pv c''] Cons.prems(1)
      have "storeSubmittedSecrets mset secs dt cx ?fsv1 = (None, fsv')" by simp
      from Cons.IH [OF this rest] show ?thesis
        using c' by (simp add: to_store_keep [where dt = dt and secret = secret, OF True] call_of_def)
    qed
  qed
qed

lemma store_throws:
  "storeSubmittedSecrets mset secs dt cx fsv = (Some e, fsv') \<Longrightarrow>
   \<forall>secret\<in>set secs. sr_key secret \<notin> set object_members \<Longrightarrow>
   \<exists>front p rest.
      to_store secs dt = front @ p # rest
    \<and> setCalls fsv' = setCalls fsv @ map call_of (front @ [p])
    \<and> manager fsv' = run_sets mset cx (front @ [p]) (manager fsv)
    \<and> all_return mset cx front (manager fsv)
    \<and> fst (call_set mset cx p (run_sets mset cx front (manager fsv))) = Inl e"
proof (induction secs arbitrary: fsv)
  case Nil
  then show ?case by (simp add: store_nil)
next
  case (Cons secret secs)
  let ?v = "or_else (dt (sr_key secret)) []"
  let ?p = "(secret, ?v)"
  from Cons.prems(2) have own: "sr_key secret \<notin> set object_members"
    and rest: "\<forall>secret\<in>set secs. sr_key secret \<notin> set object_members"
    by simp_all
  show ?case
  proof (cases "truthy (dt (sr_key secret))")
    case False
    then have n: "passed dt secret = None" by (simp add: passed_own [OF own])
    from store_step_skip [OF n, of mset secs cx fsv] Cons.prems(1)
    have "storeSubmittedSecrets mset secs dt cx fsv = (Some e, fsv')" by simp
    from Cons.IH [OF this rest] show ?thesis
      by (simp add: to_store_skip [where dt = dt and secret = secret, OF False])
  next
    case True
    then have pv: "passed dt secret = Some (Plain ?v)" by (simp add: passed_own [OF own])
    obtain r m' where c: "call_set mset cx ?p (manager fsv) = (r, m')"
      by (cases "call_set mset cx ?p (manager fsv)")
    show ?thesis
    proof (cases r)
      case (Inl e')
      with c have c': "call_set mset cx ?p (manager fsv) = (Inl e', m')" by simp
      then have c'': "mset (sr_key secret) (Plain ?v) cx (Some (sr_config secret)) (manager fsv) = (Inl e', m')"
        by (simp add: call_set_def)
      from store_step_throw [where mset = mset and cx = cx and fsv = fsv and secs = secs, OF pv c''] Cons.prems(1)
      have e: "e' = e" and f: "fsv' = fsv\<lparr>manager := m', setCalls := setCalls fsv @ [call_of ?p]\<rparr>"
        by (simp_all add: call_of_def)
      show ?thesis
        apply (rule exI [of _ "[]"])
        apply (rule exI [of _ ?p])
        apply (rule exI [of _ "to_store secs dt"])
        using c' e f by (simp add: to_store_keep [where dt = dt and secret = secret, OF True])
    next
      case (Inr b)
      with c have c': "call_set mset cx ?p (manager fsv) = (Inr b, m')" by simp
      then have c'': "mset (sr_key secret) (Plain ?v) cx (Some (sr_config secret)) (manager fsv) = (Inr b, m')"
        by (simp add: call_set_def)
      let ?fsv1 = "fsv\<lparr>manager := m', setCalls := setCalls fsv @ [call_of ?p]\<rparr>"
      from store_step_return [where mset = mset and cx = cx and fsv = fsv and secs = secs, OF pv c''] Cons.prems(1)
      have "storeSubmittedSecrets mset secs dt cx ?fsv1 = (Some e, fsv')" by (simp add: call_of_def)
      from Cons.IH [OF this rest] obtain front p rest where ih:
        "to_store secs dt = front @ p # rest"
        "setCalls fsv' = setCalls ?fsv1 @ map call_of (front @ [p])"
        "manager fsv' = run_sets mset cx (front @ [p]) (manager ?fsv1)"
        "all_return mset cx front (manager ?fsv1)"
        "fst (call_set mset cx p (run_sets mset cx front (manager ?fsv1))) = Inl e"
        by (elim exE conjE)
      show ?thesis
        apply (rule exI [of _ "?p # front"])
        apply (rule exI [of _ p])
        apply (rule exI [of _ rest])
        using ih c' by (simp add: to_store_keep [where dt = dt and secret = secret, OF True])
    qed
  qed
qed

lemma store_frame:
  "storeSubmittedSecrets mset secs dt cx fsv = (res, fsv') \<Longrightarrow>
   fsv' = fsv\<lparr>manager := manager fsv', setCalls := setCalls fsv'\<rparr>"
proof (induction secs arbitrary: fsv)
  case Nil
  then show ?case by (simp add: store_nil)
next
  case (Cons secret secs)
  show ?case
  proof (cases "passed dt secret")
    case None
    from store_step_skip [OF None, of mset secs cx fsv] Cons.prems
    have "storeSubmittedSecrets mset secs dt cx fsv = (res, fsv')" by simp
    then show ?thesis by (rule Cons.IH)
  next
    case (Some v)
    obtain r m' where c: "mset (sr_key secret) v cx (Some (sr_config secret)) (manager fsv) = (r, m')"
      by (cases "mset (sr_key secret) v cx (Some (sr_config secret)) (manager fsv)")
    let ?fsv1 = "fsv\<lparr>manager := m', setCalls := setCalls fsv @ [(sr_key secret, v)]\<rparr>"
    show ?thesis
    proof (cases r)
      case (Inl e)
      with c have "mset (sr_key secret) v cx (Some (sr_config secret)) (manager fsv) = (Inl e, m')"
        by simp
      from store_step_throw [where mset = mset and cx = cx and fsv = fsv and secs = secs, OF Some this] Cons.prems
      show ?thesis by auto
    next
      case (Inr b)
      with c have c': "mset (sr_key secret) v cx (Some (sr_config secret)) (manager fsv) = (Inr b, m')"
        by simp
      from store_step_return [where mset = mset and cx = cx and fsv = fsv and secs = secs, OF Some c'] Cons.prems
      have "storeSubmittedSecrets mset secs dt cx ?fsv1 = (res, fsv')" by simp
      then have "fsv' = ?fsv1\<lparr>manager := manager fsv', setCalls := setCalls fsv'\<rparr>"
        by (rule Cons.IH)
      also have "\<dots> = fsv\<lparr>manager := manager fsv', setCalls := setCalls fsv'\<rparr>"
        by simp
      finally show ?thesis .
    qed
  qed
qed

lemma store_heap:
  "storeSubmittedSecrets mset secs dt cx (fsv\<lparr>heap := h\<rparr>)
     = (fst (storeSubmittedSecrets mset secs dt cx fsv),
        (snd (storeSubmittedSecrets mset secs dt cx fsv))\<lparr>heap := h\<rparr>)"
proof (induction secs arbitrary: fsv)
  case Nil
  then show ?case by (simp add: store_nil)
next
  case (Cons secret secs)
  show ?case
  proof (cases "passed dt secret")
    case None
    then show ?thesis
      using Cons.IH [of fsv] by (simp add: store_step_skip [OF None])
  next
    case (Some v)
    obtain r m' where c: "mset (sr_key secret) v cx (Some (sr_config secret)) (manager fsv) = (r, m')"
      by (cases "mset (sr_key secret) v cx (Some (sr_config secret)) (manager fsv)")
    show ?thesis
    proof (cases r)
      case (Inl e)
      with c have c1: "mset (sr_key secret) v cx (Some (sr_config secret)) (manager fsv) = (Inl e, m')"
        and c2: "mset (sr_key secret) v cx (Some (sr_config secret)) (manager (fsv\<lparr>heap := h\<rparr>))
                   = (Inl e, m')" by simp_all
      show ?thesis
        by (simp add: store_step_throw [where mset = mset and cx = cx and fsv = fsv and secs = secs, OF Some c1] store_step_throw [where mset = mset and cx = cx and fsv = "fsv\<lparr>heap := h\<rparr>" and secs = secs, OF Some c2])
    next
      case (Inr b)
      with c have c1: "mset (sr_key secret) v cx (Some (sr_config secret)) (manager fsv) = (Inr b, m')"
        and c2: "mset (sr_key secret) v cx (Some (sr_config secret)) (manager (fsv\<lparr>heap := h\<rparr>))
                   = (Inr b, m')" by simp_all
      let ?fsv1 = "fsv\<lparr>manager := m', setCalls := setCalls fsv @ [(sr_key secret, v)]\<rparr>"
      have e: "(fsv\<lparr>heap := h\<rparr>)\<lparr>manager := m', setCalls := setCalls (fsv\<lparr>heap := h\<rparr>) @ [(sr_key secret, v)]\<rparr>
            = ?fsv1\<lparr>heap := h\<rparr>" by simp
      have l: "storeSubmittedSecrets mset (secret # secs) dt cx (fsv\<lparr>heap := h\<rparr>)
            = storeSubmittedSecrets mset secs dt cx (?fsv1\<lparr>heap := h\<rparr>)"
        unfolding store_step_return [where mset = mset and cx = cx and fsv = "fsv\<lparr>heap := h\<rparr>" and secs = secs, OF Some c2] e ..
      have r: "storeSubmittedSecrets mset (secret # secs) dt cx fsv
            = storeSubmittedSecrets mset secs dt cx ?fsv1"
        by (rule store_step_return [where mset = mset and cx = cx and fsv = fsv and secs = secs, OF Some c1])
      show ?thesis
        unfolding l r by (rule Cons.IH)
    qed
  qed
qed

text \<open>
  Claim C9, as amended. For a request whose secret keys are not names of members that
  objects inherit from \<open>Object.prototype\<close>, the secrets of a submission are persisted by
  calling \<open>SecretStore.set\<close> once for each declared secret that has a non-empty value in
  the submission (a declared secret without one is skipped), one after the other in the
  order of the request. If no call throws, every such secret is attempted. If a call
  throws, the calls made are those up to and including the one that threw, none of the
  remaining secrets is attempted, the error is the result, and the manager is left as the
  calls before it and the failing call itself left it: nothing is rolled back.
\<close>

theorem secrets_stored_in_order:
  assumes "\<forall>secret\<in>set secs. sr_key secret \<notin> set object_members"
  shows "(storeSubmittedSecrets mset secs dt cx fsv = (None, fsv') \<longrightarrow>
      setCalls fsv' = setCalls fsv @ map call_of (to_store secs dt)
      \<and> manager fsv' = run_sets mset cx (to_store secs dt) (manager fsv)
      \<and> all_return mset cx (to_store secs dt) (manager fsv))
   \<and> (storeSubmittedSecrets mset secs dt cx fsv = (Some e, fsv') \<longrightarrow>
        (\<exists>front p rest.
            to_store secs dt = front @ p # rest
          \<and> setCalls fsv' = setCalls fsv @ map call_of (front @ [p])
          \<and> manager fsv' = run_sets mset cx (front @ [p]) (manager fsv)
          \<and> all_return mset cx front (manager fsv)
          \<and> fst (call_set mset cx p (run_sets mset cx front (manager fsv))) = Inl e))"
  using assms store_returns [of mset secs dt cx fsv fsv']
    store_throws [of mset secs dt cx fsv e fsv']
  by blast

section \<open>Rejected submissions\<close>

lemma submit_inactive:
  "deref fsv r = Some (session, cx) \<Longrightarrow> status session \<noteq> Active \<Longrightarrow>
   submit mset r body t ip ua fsv = (Json410, fsv)"
  by (simp add: submit_def)

lemma submit_invalid:
  "deref fsv r = Some (session, cx) \<Longrightarrow> status session = Active \<Longrightarrow>
   \<not> valid (validateSubmission (schema session) body) \<Longrightarrow>
   submit mset r body t ip ua fsv = (Json400 (errors (validateSubmission (schema session) body)), fsv)"
  by (simp add: submit_def Let_def)

lemma validate_fields_keys:
  "map_of (validate_fields fs dt errs) name \<noteq> None
     \<longleftrightarrow> map_of errs name \<noteq> None
          \<or> (\<exists>f\<in>set fs. f_name f = name \<and> field_error f dt \<noteq> None)"
proof (induction fs arbitrary: errs)
  case Nil
  then show ?case by simp
next
  case (Cons f fs)
  show ?case
  proof (cases "field_error f dt")
    case None
    then show ?thesis using Cons.IH [of errs] by auto
  next
    case (Some m)
    then show ?thesis
      using Cons.IH [of "AList.update (f_name f) m errs"]
      by (auto simp: update_conv')
  qed
qed

lemma validate_failing:
  assumes "\<exists>f\<in>set (sch_fields sch). field_error f dt \<noteq> None"
  shows "\<not> valid (validateSubmission sch dt)"
    and "\<exists>errs. errors (validateSubmission sch dt) = Some errs
           \<and> (\<forall>f\<in>set (sch_fields sch). field_error f dt \<noteq> None \<longrightarrow> map_of errs (f_name f) \<noteq> None)"
proof -
  let ?errs = "validate_fields (sch_fields sch) dt []"
  from assms obtain f where "f \<in> set (sch_fields sch)" "field_error f dt \<noteq> None" by blast
  then have "map_of ?errs (f_name f) \<noteq> None"
    using validate_fields_keys [of "sch_fields sch" dt "[]" "f_name f"] by blast
  then have ne: "?errs \<noteq> []" by auto
  then show "\<not> valid (validateSubmission sch dt)"
    by (simp add: validateSubmission_def Let_def)
  have "\<forall>f\<in>set (sch_fields sch). field_error f dt \<noteq> None \<longrightarrow> map_of ?errs (f_name f) \<noteq> None"
    using validate_fields_keys [of "sch_fields sch" dt "[]"] by blast
  with ne show "\<exists>errs. errors (validateSubmission sch dt) = Some errs
           \<and> (\<forall>f\<in>set (sch_fields sch). field_error f dt \<noteq> None \<longrightarrow> map_of errs (f_name f) \<noteq> None)"
    by (simp add: validateSubmission_def Let_def)
qed

text \<open>
  A submission that fails the validation of some field leaves the whole state of the
  service as it was, and on an active session the handler answers with a map from field
  names to messages that has an entry for every failing field.
\<close>

lemma rejected_submission_unchanged:
  assumes "deref fsv r = Some (session, cx)"
    and "\<exists>f\<in>set (sch_fields (schema session)). field_error f body \<noteq> None"
  shows "snd (submit mset r body t ip ua fsv) = fsv
       \<and> (status session = Active \<longrightarrow>
            (\<exists>errs. fst (submit mset r body t ip ua fsv) = Json400 (Some errs)
               \<and> (\<forall>f\<in>set (sch_fields (schema session)).
                     field_error f body \<noteq> None \<longrightarrow> map_of errs (f_name f) \<noteq> None)))"
proof (cases "status session = Active")
  case False
  with assms(1) show ?thesis by (simp add: submit_inactive)
next
  case True
  from validate_failing [OF assms(2)] obtain errs where
    nv: "\<not> valid (validateSubmission (schema session) body)"
    and e: "errors (validateSubmission (schema session) body) = Some errs"
    and k: "\<forall>f\<in>set (sch_fields (schema session)).
              field_error f body \<noteq> None \<longrightarrow> map_of errs (f_name f) \<noteq> None"
    by blast
  from submit_invalid [OF assms(1) True nv] e k show ?thesis by simp
qed

text \<open>
  A required field fails the validation when the body has no non-empty string for it,
  unless its name is that of an inherited member.
\<close>

lemma required_field_missing:
  "f_required f \<Longrightarrow> f_name f \<notin> set object_members \<Longrightarrow> \<not> truthy (body (f_name f)) \<Longrightarrow>
   field_error f body = Some (f_label f @ '' is required'')"
  by (auto simp: field_error_def read_field_def get_prop_def truthy_def split: option.splits)

lemma required_member_passes:
  "f_name f \<in> set object_members \<Longrightarrow> body (f_name f) = None \<Longrightarrow> f_validation f = None \<Longrightarrow>
   field_error f body = None"
  by (simp add: field_error_def read_field_def get_prop_def)

section \<open>The paths of the submission handler\<close>

lemma deref_Some: "deref fsv r = Some x \<Longrightarrow> r < length (heap fsv) \<and> heap fsv ! r = x"
  by (auto simp: deref_def split: if_splits)

lemma submit_store_throws:
  assumes d: "deref fsv r = Some (session, cx)" and a: "status session = Active"
    and v: "valid (validateSubmission (schema session) body)"
    and st: "fst (storeSubmittedSecrets mset (secrets (request session)) body cx fsv) = Some e"
  shows "submit mset r body t ip ua fsv
       = (Json500,
          (snd (storeSubmittedSecrets mset (secrets (request session)) body cx fsv))
            \<lparr>heap := (heap fsv)
               [r := (session\<lparr>submissions := submissions session @ [new_submission session body t ip ua]\<rparr>, cx)]\<rparr>)"
  using d a v st
  by (simp add: submit_def Let_def store_heap new_submission_def split: prod.splits)

lemma submit_store_returns:
  assumes d: "deref fsv r = Some (session, cx)" and a: "status session = Active"
    and v: "valid (validateSubmission (schema session) body)"
    and st: "fst (storeSubmittedSecrets mset (secrets (request session)) body cx fsv) = None"
  shows "snd (submit mset r body t ip ua fsv)
       = (let session1 = session\<lparr>submissions := submissions session @ [new_submission session body t ip ua]\<rparr>;
              fsv2 = (snd (storeSubmittedSecrets mset (secrets (request session)) body cx fsv))
                        \<lparr>heap := (heap fsv)[r := (session1, cx)]\<rparr>
          in if int (length (submissions session)) + 1 \<ge> max_or_one (maxSubmissions (schema session))
             then closeSession (fs_id session)
                    (fsv2\<lparr>heap := (heap fsv)[r := (session1\<lparr>status := Completed\<rparr>, cx)]\<rparr>)
             else fsv2)"
    and "fst (submit mset r body t ip ua fsv)
       = (case callback session of
            None \<Rightarrow> Json200 (successMessage (schema session))
          | Some cb \<Rightarrow> (case cb (new_submission session body t ip ua) of
                          Some e \<Rightarrow> Json500
                        | None \<Rightarrow> Json200 (successMessage (schema session))))"
  using d a v st
  by (simp_all add: submit_def Let_def store_heap new_submission_def split: prod.splits option.splits)

lemma deref_heap: "heap fsv' = heap fsv \<Longrightarrow> deref fsv' r = deref fsv r"
  by (simp add: deref_def)

lemma heap_closeSession [simp]: "heap (closeSession sid fsv) = heap fsv"
  by (simp add: closeSession_def split: option.splits)

lemma heap_fold_closeSession [simp]: "heap (fold closeSession sids fsv) = heap fsv"
  by (induction sids arbitrary: fsv) simp_all

lemma getSession_closeSession: "getSession sid (closeSession sid fsv) = None"
proof (cases "getSession sid fsv")
  case None
  then show ?thesis by (simp add: closeSession_def)
next
  case (Some session)
  then have "map_of (sessions (closeSession sid fsv)) sid = None"
    by (simp add: closeSession_def delete_conv')
  then show ?thesis by (simp add: getSession_def)
qed

lemma closeSession_registered:
  "getSession sid fsv = Some session \<Longrightarrow>
   closedTunnels (closeSession sid fsv) = closedTunnels fsv @ [tunnelId session]
   \<and> port session \<notin> set (servers (closeSession sid fsv))"
  by (simp add: closeSession_def)

lemma heap_store:
  "heap (snd (storeSubmittedSecrets mset secs dt cx fsv)) = heap fsv"
proof -
  obtain res fsv' where s: "storeSubmittedSecrets mset secs dt cx fsv = (res, fsv')"
    by (cases "storeSubmittedSecrets mset secs dt cx fsv")
  from store_frame [OF s] have "heap fsv' = heap (fsv\<lparr>manager := manager fsv', setCalls := setCalls fsv'\<rparr>)"
    by simp
  with s show ?thesis by simp
qed

lemma heap_submit:
  "heap (snd (submit mset r body t ip ua fsv)) = heap fsv
   \<or> (\<exists>x. heap (snd (submit mset r body t ip ua fsv)) = (heap fsv)[r := x])"
proof (cases "deref fsv r")
  case None
  then show ?thesis by (simp add: submit_def)
next
  case (Some p)
  obtain session cx where p: "p = (session, cx)" by (cases p)
  with Some have d: "deref fsv r = Some (session, cx)" by simp
  show ?thesis
  proof (cases "status session = Active")
    case False
    with d show ?thesis by (simp add: submit_inactive)
  next
    case True
    show ?thesis
    proof (cases "valid (validateSubmission (schema session) body)")
      case False
      with d True show ?thesis by (simp add: submit_invalid)
    next
      case v: True
      show ?thesis
      proof (cases "fst (storeSubmittedSecrets mset (secrets (request session)) body cx fsv)")
        case None
        show ?thesis
        proof (cases "int (length (submissions session)) + 1 \<ge> max_or_one (maxSubmissions (schema session))")
          case c: True
          from submit_store_returns(1) [OF d True v None, of t ip ua] c
          have "heap (snd (submit mset r body t ip ua fsv))
              = (heap fsv)[r := (session\<lparr>submissions := submissions session @ [new_submission session body t ip ua],
                                         status := Completed\<rparr>, cx)]"
            by (simp add: Let_def)
          then show ?thesis by (intro disjI2 exI)
        next
          case c: False
          from submit_store_returns(1) [OF d True v None, of t ip ua] c
          have "heap (snd (submit mset r body t ip ua fsv))
              = (heap fsv)[r := (session\<lparr>submissions := submissions session @ [new_submission session body t ip ua]\<rparr>, cx)]"
            by (simp add: Let_def)
          then show ?thesis by (intro disjI2 exI)
        qed
      next
        case (Some e)
        from submit_store_throws [OF d True v Some, of t ip ua]
        have "heap (snd (submit mset r body t ip ua fsv))
              = (heap fsv)[r := (session\<lparr>submissions := submissions session @ [new_submission session body t ip ua]\<rparr>, cx)]"
          by simp
        then show ?thesis by (intro disjI2 exI)
      qed
    qed
  qed
qed

lemma submit_keeps_inactive:
  assumes "deref fsv r = Some (session, cx)" and "status session \<noteq> Active"
  shows "deref (snd (submit mset r2 body t ip ua fsv)) r = Some (session, cx)"
proof (cases "r2 = r")
  case True
  from submit_inactive [OF assms, of mset body t ip ua]
  have "snd (submit mset r body t ip ua fsv) = fsv" by simp
  with assms(1) True show ?thesis by simp
next
  case False
  from deref_Some [OF assms(1)] have r: "r < length (heap fsv)" "heap fsv ! r = (session, cx)"
    by simp_all
  from heap_submit [of mset r2 body t ip ua fsv] show ?thesis
  proof
    assume "heap (snd (submit mset r2 body t ip ua fsv)) = heap fsv"
    then have "deref (snd (submit mset r2 body t ip ua fsv)) r = deref fsv r"
      by (rule deref_heap)
    with assms(1) show ?thesis by simp
  next
    assume "\<exists>x. heap (snd (submit mset r2 body t ip ua fsv)) = (heap fsv)[r2 := x]"
    then obtain x where h: "heap (snd (submit mset r2 body t ip ua fsv)) = (heap fsv)[r2 := x]" ..
    have "(heap fsv)[r2 := x] ! r = heap fsv ! r" using False by simp
    with r h show ?thesis unfolding deref_def by simp
  qed
qed

section \<open>Sessions that are not active stay as they are\<close>

lemma heap_create:
  "heap (snd (createSecretForm ce req cx cb fsv)) = heap fsv
   \<or> (\<exists>y. heap (snd (createSecretForm ce req cx cb fsv)) = heap fsv @ [y])"
proof (cases "tunnel ce")
  case (Inl e)
  then show ?thesis by (simp add: createSecretForm_def Let_def)
next
  case (Inr p)
  obtain tid turl where "p = (tid, turl)" by (cases p)
  with Inr have "\<exists>y. heap (snd (createSecretForm ce req cx cb fsv)) = heap fsv @ [y]"
    by (simp add: createSecretForm_def Let_def)
  then show ?thesis ..
qed

lemma create_keeps:
  assumes "deref fsv r = Some x"
  shows "deref (snd (createSecretForm ce req cx cb fsv)) r = Some x"
proof -
  from deref_Some [OF assms] have r: "r < length (heap fsv)" "heap fsv ! r = x" by simp_all
  from heap_create [of ce req cx cb fsv] show ?thesis
  proof
    assume "heap (snd (createSecretForm ce req cx cb fsv)) = heap fsv"
    then have "deref (snd (createSecretForm ce req cx cb fsv)) r = deref fsv r"
      by (rule deref_heap)
    with assms show ?thesis by simp
  next
    assume "\<exists>y. heap (snd (createSecretForm ce req cx cb fsv)) = heap fsv @ [y]"
    then obtain y where "heap (snd (createSecretForm ce req cx cb fsv)) = heap fsv @ [y]" ..
    with r show ?thesis unfolding deref_def by (simp add: nth_append)
  qed
qed

lemma step_keeps_inactive:
  assumes "deref fsv r = Some (session, cx)" and "status session \<noteq> Active"
  shows "deref (step mset opn fsv) r = Some (session, cx)"
proof (cases opn)
  case (OpCreate ce req c cb)
  with create_keeps [OF assms(1)] show ?thesis by (simp add: step_def)
next
  case (OpSubmit r2 body t ip ua)
  with submit_keeps_inactive [OF assms] show ?thesis by (simp add: step_def)
next
  case (OpClose sid)
  have "deref (closeSession sid fsv) r = deref fsv r" by (rule deref_heap) simp
  with OpClose assms(1) show ?thesis by (simp add: step_def)
next
  case (OpCleanup t)
  have "deref (cleanupExpiredSessions t fsv) r = deref fsv r"
    by (rule deref_heap) (simp add: cleanupExpiredSessions_def Let_def)
  with OpCleanup assms(1) show ?thesis by (simp add: step_def)
next
  case OpStop
  have "deref (stop_forms fsv) r = deref fsv r"
    by (rule deref_heap) (simp add: stop_forms_def)
  with OpStop assms(1) show ?thesis by (simp add: step_def)
qed

lemma steps_keep_inactive:
  "deref fsv r = Some (session, cx) \<Longrightarrow> status session \<noteq> Active \<Longrightarrow>
   deref (fold (step mset) ops fsv) r = Some (session, cx)"
proof (induction ops arbitrary: fsv)
  case Nil
  then show ?case by simp
next
  case (Cons opn ops)
  from Cons.prems have "deref (step mset opn fsv) r = Some (session, cx)"
    by (rule step_keeps_inactive)
  from Cons.IH [OF this Cons.prems(2)] show ?case by simp
qed

section \<open>Accepted submissions and failed persistence\<close>

lemma submit_accepted:
  assumes d: "deref fsv r = Some (session, cx)" and a: "status session = Active"
    and acc: "fst (submit mset r body t ip ua fsv) = Json200 msg"
  shows "valid (validateSubmission (schema session) body)"
    and "fst (storeSubmittedSecrets mset (secrets (request session)) body cx fsv) = None"
proof -
  show v: "valid (validateSubmission (schema session) body)"
  proof (rule ccontr)
    assume "\<not> valid (validateSubmission (schema session) body)"
    from submit_invalid [OF d a this, of mset t ip ua] acc show False by simp
  qed
  show "fst (storeSubmittedSecrets mset (secrets (request session)) body cx fsv) = None"
  proof (cases "fst (storeSubmittedSecrets mset (secrets (request session)) body cx fsv)")
    case None
    then show ?thesis .
  next
    case (Some e)
    from submit_store_throws [OF d a v Some, of t ip ua] acc show ?thesis by simp
  qed
qed

lemma store_fields:
  "sessions (snd (storeSubmittedSecrets mset secs dt cx fsv)) = sessions fsv"
  "closedTunnels (snd (storeSubmittedSecrets mset secs dt cx fsv)) = closedTunnels fsv"
  "servers (snd (storeSubmittedSecrets mset secs dt cx fsv)) = servers fsv"
proof -
  obtain res fsv' where s: "storeSubmittedSecrets mset secs dt cx fsv = (res, fsv')"
    by (cases "storeSubmittedSecrets mset secs dt cx fsv")
  from store_frame [OF s] have
    "sessions fsv' = sessions (fsv\<lparr>manager := manager fsv', setCalls := setCalls fsv'\<rparr>)"
    "closedTunnels fsv' = closedTunnels (fsv\<lparr>manager := manager fsv', setCalls := setCalls fsv'\<rparr>)"
    "servers fsv' = servers (fsv\<lparr>manager := manager fsv', setCalls := setCalls fsv'\<rparr>)"
    by simp_all
  with s show "sessions (snd (storeSubmittedSecrets mset secs dt cx fsv)) = sessions fsv"
    "closedTunnels (snd (storeSubmittedSecrets mset secs dt cx fsv)) = closedTunnels fsv"
    "servers (snd (storeSubmittedSecrets mset secs dt cx fsv)) = servers fsv"
    by simp_all
qed

text \<open>The state in which an accepted submission leaves the session object.\<close>

lemma submit_accepted_deref:
  assumes d: "deref fsv r = Some (session, cx)" and a: "status session = Active"
    and acc: "fst (submit mset r body t ip ua fsv) = Json200 msg"
  shows "deref (snd (submit mset r body t ip ua fsv)) r
       = Some (session\<lparr>submissions := submissions session @ [new_submission session body t ip ua],
                        status := (if max_or_one (maxSubmissions (schema session))
                                       \<le> int (length (submissions session)) + 1
                                   then Completed else Active)\<rparr>, cx)"
proof -
  note v = submit_accepted(1) [OF d a acc] and st = submit_accepted(2) [OF d a acc]
  from deref_Some [OF d] have r: "r < length (heap fsv)" by simp
  from submit_store_returns(1) [OF d a v st, of t ip ua] r a show ?thesis
    by (simp add: Let_def deref_def)
qed

lemma accepted_closes:
  assumes d: "deref fsv r = Some (session, cx)" and a: "status session = Active"
    and m: "max_or_one (maxSubmissions (schema session)) \<le> int (length (submissions session)) + 1"
    and acc: "fst (submit mset r body t ip ua fsv) = Json200 msg"
  shows "getSession (fs_id session) (snd (submit mset r body t ip ua fsv)) = None"
    and "getSession (fs_id session) fsv = Some session \<Longrightarrow>
         closedTunnels (snd (submit mset r body t ip ua fsv)) = closedTunnels fsv @ [tunnelId session]
         \<and> port session \<notin> set (servers (snd (submit mset r body t ip ua fsv)))"
proof -
  note v = submit_accepted(1) [OF d a acc] and st = submit_accepted(2) [OF d a acc]
  let ?done = "session\<lparr>submissions := submissions session @ [new_submission session body t ip ua],
                        status := Completed\<rparr>"
  let ?before = "(snd (storeSubmittedSecrets mset (secrets (request session)) body cx fsv))
                   \<lparr>heap := (heap fsv)[r := (?done, cx)]\<rparr>"
  from submit_store_returns(1) [OF d a v st, of t ip ua] m
  have s: "snd (submit mset r body t ip ua fsv) = closeSession (fs_id session) ?before"
    by (simp add: Let_def)
  show "getSession (fs_id session) (snd (submit mset r body t ip ua fsv)) = None"
    unfolding s by (rule getSession_closeSession)
  assume reg: "getSession (fs_id session) fsv = Some session"
  then obtain r' where r': "map_of (sessions fsv) (fs_id session) = Some r'"
    and dr': "map_option fst (deref fsv r') = Some session"
    by (auto simp: getSession_def split: option.splits)
  from dr' have lt: "r' < length (heap fsv)" and h: "fst (heap fsv ! r') = session"
    by (auto simp: deref_def split: if_splits)
  have "getSession (fs_id session) ?before
        = Some (if r' = r then ?done else session)"
    using r' lt h by (simp add: getSession_def deref_def store_fields nth_list_update)
  then obtain s' where g: "getSession (fs_id session) ?before = Some s'"
    and t: "tunnelId s' = tunnelId session" and p: "port s' = port session"
    by (cases "r' = r") simp_all
  from closeSession_registered [OF g] t p
  show "closedTunnels (snd (submit mset r body t ip ua fsv)) = closedTunnels fsv @ [tunnelId session]
         \<and> port session \<notin> set (servers (snd (submit mset r body t ip ua fsv)))"
    unfolding s by (simp add: store_fields)
qed

text \<open>
  Claim C7. For a session with \<open>maxSubmissions = 1\<close>, one accepted submission (the
  handler acknowledges success) takes the status from active to completed and closes the
  session: it leaves the registry and, if the session was registered, its tunnel is closed
  and the server of its port is removed. Every later submission and form-page request for
  the session is answered 410, and the session stays completed under every sequence of
  operations of the service. In general no operation changes a session that is not
  active, whether completed or expired, so its status never returns to active.
\<close>

theorem single_submission_completes:
  assumes "deref fsv r = Some (session, cx)"
    and "status session = Active"
    and "maxSubmissions (schema session) = Some 1"
    and "submit mset r body t ip ua fsv = (Json200 msg, fsv')"
  shows "deref fsv' r
           = Some (session\<lparr>submissions := submissions session @ [new_submission session body t ip ua],
                           status := Completed\<rparr>, cx)
       \<and> getSession (fs_id session) fsv' = None
       \<and> (getSession (fs_id session) fsv = Some session \<longrightarrow>
            closedTunnels fsv' = closedTunnels fsv @ [tunnelId session]
            \<and> port session \<notin> set (servers fsv'))
       \<and> submit mset2 r body2 t2 ip2 ua2 fsv' = (Json410, fsv')
       \<and> form_page r fsv' = Html410
       \<and> (\<forall>ops. \<exists>s'. deref (fold (step mset2) ops fsv') r = Some (s', cx) \<and> status s' = Completed)
       \<and> (\<forall>fsv0 r0 s0 c0 ops.
            deref fsv0 r0 = Some (s0, c0) \<and> status s0 \<noteq> Active
            \<longrightarrow> deref (fold (step mset2) ops fsv0) r0 = Some (s0, c0))"
proof -
  let ?done = "session\<lparr>submissions := submissions session @ [new_submission session body t ip ua],
                        status := Completed\<rparr>"
  from assms(4) have acc: "fst (submit mset r body t ip ua fsv) = Json200 msg"
    and f: "snd (submit mset r body t ip ua fsv) = fsv'" by simp_all
  from assms(3) have m: "max_or_one (maxSubmissions (schema session)) \<le> int (length (submissions session)) + 1"
    by (simp add: max_or_one_def)
  from submit_accepted_deref [OF assms(1,2) acc] m f
  have 1: "deref fsv' r = Some (?done, cx)" by simp
  have na: "status ?done \<noteq> Active" by simp
  from accepted_closes(1) [OF assms(1,2) m acc] f
  have 2: "getSession (fs_id session) fsv' = None" by simp
  have 3: "getSession (fs_id session) fsv = Some session \<longrightarrow>
            closedTunnels fsv' = closedTunnels fsv @ [tunnelId session]
            \<and> port session \<notin> set (servers fsv')"
    using accepted_closes(2) [OF assms(1,2) m acc] f by simp
  have 4: "submit mset2 r body2 t2 ip2 ua2 fsv' = (Json410, fsv')"
    using 1 na by (rule submit_inactive)
  have 5: "form_page r fsv' = Html410"
    using 1 by (simp add: form_page_def)
  have 6: "\<forall>ops. \<exists>s'. deref (fold (step mset2) ops fsv') r = Some (s', cx) \<and> status s' = Completed"
  proof
    fix ops
    from steps_keep_inactive [OF 1 na, of mset2 ops]
    show "\<exists>s'. deref (fold (step mset2) ops fsv') r = Some (s', cx) \<and> status s' = Completed"
      by simp
  qed
  have 7: "\<forall>fsv0 r0 s0 c0 ops.
            deref fsv0 r0 = Some (s0, c0) \<and> status s0 \<noteq> Active
            \<longrightarrow> deref (fold (step mset2) ops fsv0) r0 = Some (s0, c0)"
    using steps_keep_inactive by blast
  from 1 2 3 4 5 6 7 show ?thesis by (intro conjI)
qed

text \<open>
  Claim C10. The submission record is appended to the session before the secrets are
  persisted: when persistence throws, the handler answers 500, the record stays in
  \<open>session.submissions\<close> and the session stays active, the status route reports the
  record in \<open>submissionsCount\<close>, and the record counts toward \<open>maxSubmissions\<close>: after
  the next accepted submission the session holds the retained record and one more, two
  more than before the failure, and it is completed exactly when that number of records
  has reached the maximum of the schema (a schema without a maximum, or with the maximum
  0, is completed by any accepted submission). Whether persistence throws depends on the
  manager and the payload, not on the session objects, so the hypothesis speaks of the
  state before the record is appended.
\<close>

theorem failed_persistence_keeps_submission:
  assumes "deref fsv r = Some (session, cx)"
    and "status session = Active"
    and "valid (validateSubmission (schema session) body)"
    and "fst (storeSubmittedSecrets mset (secrets (request session)) body cx fsv) = Some e"
    and "submit mset r body t ip ua fsv = (resp, fsv')"
  shows "resp = Json500
       \<and> deref fsv' r
           = Some (session\<lparr>submissions := submissions session @ [new_submission session body t ip ua]\<rparr>, cx)
       \<and> form_status r fsv'
           = JsonStatus Active (length (submissions session) + 1) (maxSubmissions (schema session))
               (fs_expiresAt session)
       \<and> (\<forall>mset2 body2 t2 ip2 ua2 msg.
            fst (submit mset2 r body2 t2 ip2 ua2 fsv') = Json200 msg \<longrightarrow>
            (\<exists>s''. deref (snd (submit mset2 r body2 t2 ip2 ua2 fsv')) r = Some (s'', cx)
               \<and> length (submissions s'') = length (submissions session) + 2
               \<and> take (length (submissions session) + 1) (submissions s'')
                   = submissions session @ [new_submission session body t ip ua]
               \<and> (status s'' = Completed
                    \<longleftrightarrow> (case maxSubmissions (schema session) of
                          None \<Rightarrow> True
                        | Some n \<Rightarrow> n = 0 \<or> n \<le> int (length (submissions session)) + 2))
               \<and> (status s'' = Active
                    \<longleftrightarrow> (case maxSubmissions (schema session) of
                          None \<Rightarrow> False
                        | Some n \<Rightarrow> n \<noteq> 0 \<and> int (length (submissions session)) + 2 < n))))"
proof -
  let ?kept = "session\<lparr>submissions := submissions session @ [new_submission session body t ip ua]\<rparr>"
  from deref_Some [OF assms(1)] have r: "r < length (heap fsv)" by simp
  from submit_store_throws [OF assms(1-4), of t ip ua] assms(5)
  have 1: "resp = Json500"
    and f: "fsv' = (snd (storeSubmittedSecrets mset (secrets (request session)) body cx fsv))
                     \<lparr>heap := (heap fsv)[r := (?kept, cx)]\<rparr>"
    by simp_all
  from f r have 2: "deref fsv' r = Some (?kept, cx)" by (simp add: deref_def)
  from 2 assms(2) have 3: "form_status r fsv'
           = JsonStatus Active (length (submissions session) + 1) (maxSubmissions (schema session))
               (fs_expiresAt session)"
    by (simp add: form_status_def)
  have a': "status ?kept = Active" using assms(2) by simp
  have 4: "\<forall>mset2 body2 t2 ip2 ua2 msg.
            fst (submit mset2 r body2 t2 ip2 ua2 fsv') = Json200 msg \<longrightarrow>
            (\<exists>s''. deref (snd (submit mset2 r body2 t2 ip2 ua2 fsv')) r = Some (s'', cx)
               \<and> length (submissions s'') = length (submissions session) + 2
               \<and> take (length (submissions session) + 1) (submissions s'')
                   = submissions session @ [new_submission session body t ip ua]
               \<and> (status s'' = Completed
                    \<longleftrightarrow> (case maxSubmissions (schema session) of
                          None \<Rightarrow> True
                        | Some n \<Rightarrow> n = 0 \<or> n \<le> int (length (submissions session)) + 2))
               \<and> (status s'' = Active
                    \<longleftrightarrow> (case maxSubmissions (schema session) of
                          None \<Rightarrow> False
                        | Some n \<Rightarrow> n \<noteq> 0 \<and> int (length (submissions session)) + 2 < n)))"
  proof (intro allI impI)
    fix mset2 :: "'a manager_set" and body2 t2 ip2 ua2 msg
    assume acc: "fst (submit mset2 r body2 t2 ip2 ua2 fsv') = Json200 msg"
    let ?s = "?kept\<lparr>submissions := submissions ?kept @ [new_submission ?kept body2 t2 ip2 ua2],
                      status := (if max_or_one (maxSubmissions (schema ?kept))
                                      \<le> int (length (submissions ?kept)) + 1
                                 then Completed else Active)\<rparr>"
    from submit_accepted_deref [OF 2 a' acc]
    have d: "deref (snd (submit mset2 r body2 t2 ip2 ua2 fsv')) r = Some (?s, cx)" .
    have l: "length (submissions ?s) = length (submissions session) + 2" by simp
    have k: "take (length (submissions session) + 1) (submissions ?s)
               = submissions session @ [new_submission session body t ip ua]" by simp
    have c: "status ?s = Completed
               \<longleftrightarrow> (case maxSubmissions (schema session) of
                     None \<Rightarrow> True
                   | Some n \<Rightarrow> n = 0 \<or> n \<le> int (length (submissions session)) + 2)"
      by (cases "maxSubmissions (schema session)") (simp_all add: max_or_one_def)
    have n: "status ?s = Active
               \<longleftrightarrow> (case maxSubmissions (schema session) of
                     None \<Rightarrow> False
                   | Some n \<Rightarrow> n \<noteq> 0 \<and> int (length (submissions session)) + 2 < n)"
      by (cases "maxSubmissions (schema session)") (auto simp: max_or_one_def)
    from d l k c n
    show "\<exists>s''. deref (snd (submit mset2 r body2 t2 ip2 ua2 fsv')) r = Some (s'', cx)
               \<and> length (submissions s'') = length (submissions session) + 2
               \<and> take (length (submissions session) + 1) (submissions s'')
                   = submissions session @ [new_submission session body t ip ua]
               \<and> (status s'' = Completed
                    \<longleftrightarrow> (case maxSubmissions (schema session) of
                          None \<Rightarrow> True
                        | Some n \<Rightarrow> n = 0 \<or> n \<le> int (length (submissions session)) + 2))
               \<and> (status s'' = Active
                    \<longleftrightarrow> (case maxSubmissions (schema session) of
                          None \<Rightarrow> False
                        | Some n \<Rightarrow> n \<noteq> 0 \<and> int (length (submissions session)) + 2 < n))"
      by (intro exI conjI)
  qed
  from 1 2 3 4 show ?thesis by (intro conjI)
qed

section \<open>Runs on the concrete form\<close>

lemmas form_defs =
  createSecretForm_def generateFormSchema_def createFormField_def apply_overrides_def
  no_overrides_def default_label_def is_word_char_def toUpperCase_def
  validateSubmission_def field_error_def read_field_def get_prop_def max_or_one_def
  ex_request_def ex_create_env_def ex_service_def ex_session_def ex_secret_config_def
  ex_member_request_def ex_member_service_def ex_member_session_def
  ex_body_def ex_body2_def truthy_def or_else_def

lemma ex_deref: "deref (ex_service n) 0 = Some (ex_session n, ex_ctx User ''user-1'')"
  by (simp add: deref_def form_defs free_port.simps Let_def)

lemma ex_fields:
  "sch_fields (schema (ex_session n))
     = [\<lparr>f_name = ''API_KEY'', f_label = ''API KEY'', f_type = ''password'', f_required = True,
         f_sensitive = True, f_validation = None\<rparr>,
        \<lparr>f_name = ''WEBHOOK_URL'', f_label = ''WEBHOOK URL'', f_type = ''url'', f_required = False,
         f_sensitive = True, f_validation = None\<rparr>]"
  by (simp add: form_defs)

lemma ex_valid: "valid (validateSubmission (schema (ex_session n)) ex_body)"
  by (simp add: validateSubmission_def ex_fields field_error_def read_field_def get_prop_def
      ex_body_def)

lemma ex_valid2: "valid (validateSubmission (schema (ex_session n)) ex_body2)"
  by (simp add: validateSubmission_def ex_fields field_error_def read_field_def get_prop_def
      ex_body2_def)

lemma ex_secrets: "secrets (request (ex_session n)) = secrets (ex_request n)"
  by (simp add: ex_session_def)

lemma ex_own_keys: "\<forall>secret\<in>set (secrets (ex_request n)). sr_key secret \<notin> set object_members"
  by (simp add: ex_request_def object_members_def)

lemma ex_to_store:
  "map call_of (to_store (secrets (ex_request n)) ex_body) = [(''API_KEY'', Plain ''sk-1'')]"
  "map call_of (to_store (secrets (ex_request n)) ex_body2)
     = [(''API_KEY'', Plain ''sk-1''), (''WEBHOOK_URL'', Plain ''https://hook.example'')]"
  by (simp_all add: to_store_def call_of_def ex_request_def ex_body_def ex_body2_def truthy_def
      or_else_def)

lemma ex_store_fails:
  "fst (storeSubmittedSecrets ex_failing_mset (secrets (ex_request n)) ex_body2
          (ex_ctx User ''user-1'') fsv) = Some (Error ''store unavailable'')"
  by (simp add: storeSubmittedSecrets.simps ex_failing_mset_def ex_request_def ex_body2_def
      read_field_def get_prop_def)

lemma set_not_thrown: "\<exists>b. fst (set_secret d iv key v ctx config s) = Inr b"
  by (auto simp: set_secret_def Let_def split: sum.splits prod.splits)

text \<open>With a manager whose \<open>set\<close> never throws, as the one above, persistence never throws.\<close>

lemma store_not_thrown:
  assumes "\<And>key v c config m. \<exists>b. fst (mset key v c config m) = Inr b"
  shows "fst (storeSubmittedSecrets mset secs dt cx fsv) = None"
proof (induction secs arbitrary: fsv)
  case Nil
  then show ?case by (simp add: store_nil)
next
  case (Cons secret secs)
  show ?case
  proof (cases "passed dt secret")
    case None
    then show ?thesis
      using Cons.IH [of fsv] by (simp add: store_step_skip [OF None])
  next
    case (Some v)
    obtain r m' where c: "mset (sr_key secret) v cx (Some (sr_config secret)) (manager fsv) = (r, m')"
      by (cases "mset (sr_key secret) v cx (Some (sr_config secret)) (manager fsv)")
    from assms [of "sr_key secret" v cx "Some (sr_config secret)" "manager fsv"] c
    obtain b where "r = Inr b" by auto
    with c have c': "mset (sr_key secret) v cx (Some (sr_config secret)) (manager fsv) = (Inr b, m')"
      by simp
    show ?thesis
      using Cons.IH
      by (simp add: store_step_return [where mset = mset and cx = cx and fsv = fsv, OF Some c'])
  qed
qed

lemma ex_store_returns: "fst (storeSubmittedSecrets ex_mset secs dt cx fsv) = None"
  by (rule store_not_thrown) (simp add: ex_mset_def set_not_thrown)

lemma ex_session_facts:
  "status (ex_session n) = Active" "callback (ex_session n) = None"
  "fs_id (ex_session n) = ''session-1''" "submissions (ex_session n) = []"
  "successMessage (schema (ex_session n)) = ''Thank you! Your information has been securely received.''"
  "fs_expiresAt (ex_session n) = 1800000"
  by (simp_all add: ex_session_def generateFormSchema_def ex_create_env_def ex_request_def)

lemma ex_max: "n \<noteq> 0 \<Longrightarrow> maxSubmissions (schema (ex_session n)) = Some n"
  by (simp add: ex_session_def generateFormSchema_def ex_request_def)

lemma ex_service_facts:
  "getSession ''session-1'' (ex_service n) = Some (ex_session n)"
  "closedTunnels (ex_service n) = []" "setCalls (ex_service n) = []"
  by (simp_all add: getSession_def deref_def form_defs free_port.simps Let_def)

lemma setCalls_closeSession [simp]: "setCalls (closeSession sid fsv) = setCalls fsv"
  by (simp add: closeSession_def split: option.splits)

lemma ex_accepted:
  assumes "deref fsv 0 = Some (session, cx)" and "status session = Active"
    and "valid (validateSubmission (schema session) body)" and "callback session = None"
  shows "fst (submit ex_mset 0 body t ip ua fsv) = Json200 (successMessage (schema session))"
  using submit_store_returns(2) [OF assms(1-3) ex_store_returns, of t ip ua] assms(4)
  by simp

text \<open>One submission of the API key to the concrete form with \<open>maxSubmissions = 1\<close>.\<close>

theorem single_submission_completes_witness:
  "fst (submit ex_mset 0 ex_body 1 None None (ex_service 1))
     = Json200 ''Thank you! Your information has been securely received.''
   \<and> map_option (\<lambda>p. status (fst p))
         (deref (snd (submit ex_mset 0 ex_body 1 None None (ex_service 1))) 0) = Some Completed
   \<and> getSession ''session-1'' (snd (submit ex_mset 0 ex_body 1 None None (ex_service 1))) = None
   \<and> closedTunnels (snd (submit ex_mset 0 ex_body 1 None None (ex_service 1))) = [''tunnel-1'']
   \<and> fst (submit ex_mset 0 ex_body 2 None None
             (snd (submit ex_mset 0 ex_body 1 None None (ex_service 1)))) = Json410
   \<and> form_page 0 (snd (submit ex_mset 0 ex_body 1 None None (ex_service 1))) = Html410"
proof -
  let ?sub = "submit ex_mset 0 ex_body 1 None None (ex_service 1)"
  note d = ex_deref [of 1]
  have acc: "fst ?sub = Json200 ''Thank you! Your information has been securely received.''"
    using ex_accepted [OF d ex_session_facts(1) ex_valid ex_session_facts(2), of 1 None None]
    by (simp add: ex_session_facts)
  then have s: "?sub = (Json200 ''Thank you! Your information has been securely received.'', snd ?sub)"
    by (simp add: prod_eq_iff)
  have m: "maxSubmissions (schema (ex_session 1)) = Some 1" by (simp add: ex_max)
  have t: "tunnelId (ex_session 1) = ''tunnel-1''" by (simp add: ex_session_def)
  from single_submission_completes [OF d ex_session_facts(1) m s, of ex_mset ex_body 2 None None]
    acc t
  show ?thesis by (simp add: ex_session_facts ex_service_facts)
qed

text \<open>
  A submission whose persistence throws, followed by an accepted one, on the concrete
  form: with \<open>maxSubmissions = 2\<close> the two records complete the session, where one
  accepted submission alone leaves it active; with \<open>maxSubmissions = 3\<close> the session
  stays active with its two records.
\<close>

theorem failed_persistence_keeps_submission_witness:
  "fst (submit ex_failing_mset 0 ex_body2 1 None None (ex_service 2)) = Json500
   \<and> form_status 0 (snd (submit ex_failing_mset 0 ex_body2 1 None None (ex_service 2)))
       = JsonStatus Active 1 (Some 2) 1800000
   \<and> fst (submit ex_mset 0 ex_body 2 None None
             (snd (submit ex_failing_mset 0 ex_body2 1 None None (ex_service 2))))
       = Json200 ''Thank you! Your information has been securely received.''
   \<and> map_option (\<lambda>p. (length (submissions (fst p)), status (fst p)))
         (deref (snd (submit ex_mset 0 ex_body 2 None None
                        (snd (submit ex_failing_mset 0 ex_body2 1 None None (ex_service 2))))) 0)
       = Some (2, Completed)
   \<and> map_option (\<lambda>p. (length (submissions (fst p)), status (fst p)))
         (deref (snd (submit ex_mset 0 ex_body 2 None None (ex_service 2))) 0)
       = Some (1, Active)
   \<and> map_option (\<lambda>p. (length (submissions (fst p)), status (fst p)))
         (deref (snd (submit ex_mset 0 ex_body 2 None None
                        (snd (submit ex_failing_mset 0 ex_body2 1 None None (ex_service 3))))) 0)
       = Some (2, Active)"
proof -
  have st: "fst (storeSubmittedSecrets ex_failing_mset (secrets (request (ex_session n))) ex_body2
                   (ex_ctx User ''user-1'') (ex_service n)) = Some (Error ''store unavailable'')" for n
    by (simp add: ex_secrets ex_store_fails)
  have run: "fst (submit ex_failing_mset 0 ex_body2 1 None None (ex_service n)) = Json500
     \<and> form_status 0 (snd (submit ex_failing_mset 0 ex_body2 1 None None (ex_service n)))
         = JsonStatus Active 1 (Some n) 1800000
     \<and> fst (submit ex_mset 0 ex_body 2 None None
               (snd (submit ex_failing_mset 0 ex_body2 1 None None (ex_service n))))
         = Json200 ''Thank you! Your information has been securely received.''
     \<and> map_option (\<lambda>p. (length (submissions (fst p)), status (fst p)))
           (deref (snd (submit ex_mset 0 ex_body 2 None None
                          (snd (submit ex_failing_mset 0 ex_body2 1 None None (ex_service n))))) 0)
         = Some (2, if n \<le> 2 then Completed else Active)" if n: "n \<noteq> 0" for n
  proof -
    let ?sub = "submit ex_failing_mset 0 ex_body2 1 None None (ex_service n)"
    let ?kept = "(ex_session n)\<lparr>submissions :=
                    submissions (ex_session n) @ [new_submission (ex_session n) ex_body2 1 None None]\<rparr>"
    note d = ex_deref [of n]
    have s: "?sub = (fst ?sub, snd ?sub)" by simp
    note t = failed_persistence_keeps_submission [OF d ex_session_facts(1) ex_valid2 st s]
    from t have k: "deref (snd ?sub) 0 = Some (?kept, ex_ctx User ''user-1'')" by simp
    have acc: "fst (submit ex_mset 0 ex_body 2 None None (snd ?sub))
         = Json200 ''Thank you! Your information has been securely received.''"
      using ex_accepted [OF k, of ex_body 2 None None] ex_valid [of n]
      by (simp add: ex_session_facts)
    from t acc have "\<exists>s''. deref (snd (submit ex_mset 0 ex_body 2 None None (snd ?sub))) 0
                        = Some (s'', ex_ctx User ''user-1'')
                 \<and> length (submissions s'') = length (submissions (ex_session n)) + 2
                 \<and> (status s'' = Completed
                      \<longleftrightarrow> (case maxSubmissions (schema (ex_session n)) of
                            None \<Rightarrow> True
                          | Some k \<Rightarrow> k = 0 \<or> k \<le> int (length (submissions (ex_session n))) + 2))
                 \<and> (status s'' = Active
                      \<longleftrightarrow> (case maxSubmissions (schema (ex_session n)) of
                            None \<Rightarrow> False
                          | Some k \<Rightarrow> k \<noteq> 0 \<and> int (length (submissions (ex_session n))) + 2 < k))"
      by blast
    then have "map_option (\<lambda>p. (length (submissions (fst p)), status (fst p)))
           (deref (snd (submit ex_mset 0 ex_body 2 None None (snd ?sub))) 0)
         = Some (2, if n \<le> 2 then Completed else Active)"
      using n by (auto simp: ex_session_facts ex_max)
    with t acc n show ?thesis by (simp add: ex_session_facts ex_max)
  qed
  have alone: "map_option (\<lambda>p. (length (submissions (fst p)), status (fst p)))
         (deref (snd (submit ex_mset 0 ex_body 2 None None (ex_service 2))) 0) = Some (1, Active)"
  proof -
    note d = ex_deref [of 2]
    have acc: "fst (submit ex_mset 0 ex_body 2 None None (ex_service 2))
         = Json200 ''Thank you! Your information has been securely received.''"
      using ex_accepted [OF d ex_session_facts(1) ex_valid ex_session_facts(2), of 2 None None]
      by (simp add: ex_session_facts)
    from submit_accepted_deref [OF d ex_session_facts(1) acc] show ?thesis
      by (simp add: ex_session_facts ex_max max_or_one_def)
  qed
  from run [of 2] run [of 3] alone show ?thesis by simp
qed

text \<open>
  An empty payload against the required API key of the concrete form is rejected with an
  error for the key, and nothing changes.
\<close>

lemma ex_rejected:
  "snd (submit ex_mset 0 Map.empty 1 None None (ex_service 1)) = ex_service 1
   \<and> (\<exists>errs. fst (submit ex_mset 0 Map.empty 1 None None (ex_service 1)) = Json400 (Some errs)
         \<and> map_of errs ''API_KEY'' \<noteq> None)"
proof -
  let ?field = "\<lparr>f_name = ''API_KEY'', f_label = ''API KEY'', f_type = ''password'',
                 f_required = True, f_sensitive = True, f_validation = None\<rparr>"
  have mem: "?field \<in> set (sch_fields (schema (ex_session 1)))" by (simp add: ex_fields)
  have err: "field_error ?field Map.empty \<noteq> None"
    using required_field_missing [of ?field Map.empty]
    by (simp add: object_members_def truthy_def)
  from mem err have h: "\<exists>f\<in>set (sch_fields (schema (ex_session 1))). field_error f Map.empty \<noteq> None"
    by blast
  from rejected_submission_unchanged [OF ex_deref h, of ex_mset 1 None None] mem err
  have "snd (submit ex_mset 0 Map.empty 1 None None (ex_service 1)) = ex_service 1
        \<and> (\<exists>errs. fst (submit ex_mset 0 Map.empty 1 None None (ex_service 1)) = Json400 (Some errs)
              \<and> map_of errs (f_name ?field) \<noteq> None)"
    by (auto simp: ex_session_facts)
  then show ?thesis by simp
qed

lemma ex_member_deref:
  "deref ex_member_service 0 = Some (ex_member_session, ex_ctx User ''user-1'')"
  by (simp add: deref_def form_defs free_port.simps Let_def)

lemma upper_c: "char_of (67::nat) = CHR ''C''"
  by code_simp

lemma ex_member_fields:
  "sch_fields (schema ex_member_session)
     = [\<lparr>f_name = ''constructor'', f_label = ''Constructor'', f_type = ''password'',
         f_required = True, f_sensitive = True, f_validation = None\<rparr>]"
  by (simp add: form_defs upper_c)

lemma ex_member_facts:
  "status ex_member_session = Active" "callback ex_member_session = None"
  "submissions ex_member_session = []"
  "successMessage (schema ex_member_session)
     = ''Thank you! Your information has been securely received.''"
  "maxSubmissions (schema ex_member_session) = Some 1"
  "secrets (request ex_member_session)
     = [\<lparr>sr_key = ''constructor'', sr_config = ex_secret_config ''api_key'' True, sr_field = None\<rparr>]"
  "setCalls ex_member_service = []"
  by (simp_all add: form_defs free_port.simps Let_def)

text \<open>
  Claim C8. The handler breaks the claim for a required field whose name is that of a
  member that objects inherit from \<open>Object.prototype\<close>. On the form that requires the
  secret \<open>constructor\<close>, the empty payload has no value for the field, but the required
  check reads the inherited member under that name, finds it truthy and passes: the
  validation reports no error, the handler answers 200 instead of the error map, appends
  the submission, calls \<open>SecretStore.set\<close> with the inherited member as the value, and
  completes the session. With the collaborators of the example that call returns false,
  which the handler does not look at.
\<close>

theorem inherited_member_passes_required_check:
  "sch_fields (schema ex_member_session)
     = [\<lparr>f_name = ''constructor'', f_label = ''Constructor'', f_type = ''password'',
         f_required = True, f_sensitive = True, f_validation = None\<rparr>]
   \<and> deref ex_member_service 0 = Some (ex_member_session, ex_ctx User ''user-1'')
   \<and> status ex_member_session = Active
   \<and> validateSubmission (schema ex_member_session) Map.empty = \<lparr>valid = True, errors = None\<rparr>
   \<and> fst (submit ex_mset 0 Map.empty 1 None None ex_member_service)
       = Json200 ''Thank you! Your information has been securely received.''
   \<and> map_option (\<lambda>p. (length (submissions (fst p)), status (fst p)))
         (deref (snd (submit ex_mset 0 Map.empty 1 None None ex_member_service)) 0)
       = Some (1, Completed)
   \<and> setCalls (snd (submit ex_mset 0 Map.empty 1 None None ex_member_service))
       = [(''constructor'', MemberV ''constructor'')]
   \<and> fst (set_secret ex_deps 0 ''constructor'' (MemberV ''constructor'') (ex_ctx User ''user-1'')
            (Some (ex_secret_config ''api_key'' True)) ex_state) = Inr False"
proof -
  let ?sub = "submit ex_mset 0 Map.empty 1 None None ex_member_service"
  let ?secret = "\<lparr>sr_key = ''constructor'', sr_config = ex_secret_config ''api_key'' True,
                  sr_field = None\<rparr>"
  let ?st = "storeSubmittedSecrets ex_mset (secrets (request ex_member_session)) Map.empty
               (ex_ctx User ''user-1'') ex_member_service"
  note d = ex_member_deref
  have vs: "validateSubmission (schema ex_member_session) Map.empty = \<lparr>valid = True, errors = None\<rparr>"
    by (simp add: validateSubmission_def ex_member_fields field_error_def read_field_def
        get_prop_def object_members_def)
  then have v: "valid (validateSubmission (schema ex_member_session) Map.empty)" by simp
  have acc: "fst ?sub = Json200 ''Thank you! Your information has been securely received.''"
    using ex_accepted [OF d ex_member_facts(1) v ex_member_facts(2), of 1 None None]
    by (simp add: ex_member_facts)
  from submit_accepted_deref [OF d ex_member_facts(1) acc]
  have fin: "map_option (\<lambda>p. (length (submissions (fst p)), status (fst p))) (deref (snd ?sub) 0)
                = Some (1, Completed)"
    by (simp add: ex_member_facts max_or_one_def)
  have pv: "passed Map.empty ?secret = Some (MemberV ''constructor'')"
    by (simp add: passed_def read_field_def get_prop_def object_members_def)
  obtain b m' where c: "ex_mset (sr_key ?secret) (MemberV ''constructor'') (ex_ctx User ''user-1'')
                          (Some (sr_config ?secret)) (manager ex_member_service) = (Inr b, m')"
    using set_not_thrown [of ex_deps 0 "sr_key ?secret" "MemberV ''constructor''"
        "ex_ctx User ''user-1''" "Some (sr_config ?secret)" "manager ex_member_service"]
    by (auto simp: ex_mset_def prod_eq_iff)
  have "setCalls (snd ?st) = [(''constructor'', MemberV ''constructor'')]"
    by (simp add: ex_member_facts store_nil
        store_step_return [where mset = ex_mset and cx = "ex_ctx User ''user-1''"
          and fsv = ex_member_service and secs = "[]", OF pv c])
  moreover have "setCalls (snd ?sub) = setCalls (snd ?st)"
    using submit_store_returns(1) [OF d ex_member_facts(1) v ex_store_returns, of 1 None None]
    by (simp add: Let_def)
  ultimately have calls: "setCalls (snd ?sub) = [(''constructor'', MemberV ''constructor'')]"
    by simp
  have ret: "fst (set_secret ex_deps 0 ''constructor'' (MemberV ''constructor'') (ex_ctx User ''user-1'')
            (Some (ex_secret_config ''api_key'' True)) ex_state) = Inr False"
    by (simp add: store_defs ex_secret_config_def Let_def encrypt_def)
  from ex_member_fields d ex_member_facts(1) vs acc fin calls ret show ?thesis
    by (intro conjI)
qed

text \<open>
  Claim C9 as stated fails: the concrete form declares two secrets, the submission with
  the API key alone is valid (the webhook URL is optional) and is acknowledged, and
  \<open>set\<close> is called once, not twice.
\<close>

theorem optional_secret_counterexample:
  "length (secrets (request (ex_session 1))) = 2
   \<and> valid (validateSubmission (schema (ex_session 1)) ex_body)
   \<and> fst (submit ex_mset 0 ex_body 1 None None (ex_service 1))
       = Json200 ''Thank you! Your information has been securely received.''
   \<and> setCalls (snd (submit ex_mset 0 ex_body 1 None None (ex_service 1)))
       = [(''API_KEY'', Plain ''sk-1'')]"
proof -
  let ?st = "storeSubmittedSecrets ex_mset (secrets (request (ex_session 1))) ex_body
               (ex_ctx User ''user-1'') (ex_service 1)"
  note d = ex_deref [of 1]
  have n: "fst ?st = None" by (rule ex_store_returns)
  then have "?st = (None, snd ?st)" by (simp add: prod_eq_iff)
  from store_returns [OF this] have c: "setCalls (snd ?st) = [(''API_KEY'', Plain ''sk-1'')]"
    by (simp add: ex_secrets ex_to_store ex_service_facts ex_own_keys)
  have "setCalls (snd (submit ex_mset 0 ex_body 1 None None (ex_service 1))) = setCalls (snd ?st)"
    using submit_store_returns(1) [OF d ex_session_facts(1) ex_valid n, of 1 None None]
    by (simp add: Let_def)
  with c show ?thesis
    using ex_accepted [OF d ex_session_facts(1) ex_valid ex_session_facts(2), of 1 None None]
    by (simp add: ex_valid ex_session_facts ex_secrets ex_request_def)
qed

text \<open>Both secrets submitted, with the manager above and with the one that throws.\<close>

theorem secrets_stored_in_order_witness:
  "map sr_key (secrets (ex_request 1)) = [''API_KEY'', ''WEBHOOK_URL'']
   \<and> ''API_KEY'' \<notin> set object_members \<and> ''WEBHOOK_URL'' \<notin> set object_members
   \<and> fst (storeSubmittedSecrets ex_mset (secrets (ex_request 1)) ex_body2 (ex_ctx User ''user-1'')
          (ex_service 1)) = None
   \<and> setCalls (snd (storeSubmittedSecrets ex_mset (secrets (ex_request 1)) ex_body2
                      (ex_ctx User ''user-1'') (ex_service 1)))
       = [(''API_KEY'', Plain ''sk-1''), (''WEBHOOK_URL'', Plain ''https://hook.example'')]
   \<and> storeSubmittedSecrets ex_failing_mset (secrets (ex_request 1)) ex_body2 (ex_ctx User ''user-1'')
          (ex_service 1)
       = (Some (Error ''store unavailable''),
          (ex_service 1)\<lparr>manager := ex_state, setCalls := [(''API_KEY'', Plain ''sk-1'')]\<rparr>)"
proof -
  let ?ok = "storeSubmittedSecrets ex_mset (secrets (ex_request 1)) ex_body2
               (ex_ctx User ''user-1'') (ex_service 1)"
  let ?ko = "storeSubmittedSecrets ex_failing_mset (secrets (ex_request 1)) ex_body2
               (ex_ctx User ''user-1'') (ex_service 1)"
  have n: "fst ?ok = None" by (rule ex_store_returns)
  then have ok: "?ok = (None, snd ?ok)" by (simp add: prod_eq_iff)
  have ko: "?ko = (Some (Error ''store unavailable''),
                   (ex_service 1)\<lparr>manager := manager (ex_service 1),
                                  setCalls := [(''API_KEY'', Plain ''sk-1'')]\<rparr>)"
    by (simp add: storeSubmittedSecrets.simps ex_failing_mset_def ex_request_def ex_body2_def
        read_field_def get_prop_def ex_service_facts)
  have mg: "manager (ex_service 1) = ex_state"
    by (simp add: form_defs free_port.simps Let_def)
  from secrets_stored_in_order [where secs = "secrets (ex_request 1)" and mset = ex_mset
      and dt = ex_body2 and cx = "ex_ctx User ''user-1''" and fsv = "ex_service 1"
      and fsv' = "snd ?ok", OF ex_own_keys] ok
  have "setCalls (snd ?ok) = setCalls (ex_service 1) @ map call_of (to_store (secrets (ex_request 1)) ex_body2)"
    by blast
  moreover have "map sr_key (secrets (ex_request 1)) = [''API_KEY'', ''WEBHOOK_URL'']
      \<and> ''API_KEY'' \<notin> set object_members \<and> ''WEBHOOK_URL'' \<notin> set object_members"
    by (simp add: ex_request_def object_members_def)
  ultimately show ?thesis
    using n ko mg by (simp add: ex_to_store ex_service_facts)
qed

end
